theory Spec2Isabelle
  imports Main
begin

section \<open>Python values, exceptions and string helpers\<close>

text \<open>
  Exceptions of the program are values.  \<open>UserException\<close> stands for whatever a user
  callback raises; the others are the Python and library exceptions that the modelled
  code can raise.
\<close>

datatype exn =
    ValueError
  | IndexError
  | AttributeError
  | TypeError
  | ValidationError
  | PaperlessAPIError
  | UserException string

text \<open>
  Strings are lists of characters, a character being a code point below 256.
  \<open>split_on c s\<close> is Python's \<^verbatim>\<open>s.split(c)\<close> for a one-character separator:
  the result is never empty, and a trailing separator yields a final empty element.
\<close>

fun split_on :: "char \<Rightarrow> string \<Rightarrow> string list" where
  "split_on c [] = [[]]"
| "split_on c (x # xs) =
     (if x = c then [] # split_on c xs
      else (case split_on c xs of
              [] \<Rightarrow> [[x]]
            | y # ys \<Rightarrow> (x # y) # ys))"

text \<open>
  \<^verbatim>\<open>xs[i]\<close> on a Python list: \<open>i\<close> from \<open>0\<close> up to the length selects from the
  front, \<open>i\<close> from \<open>-1\<close> down to minus the length selects from the back, and every other
  \<open>i\<close> is an \<^verbatim>\<open>IndexError\<close>.
\<close>

definition py_index :: "'a list \<Rightarrow> int \<Rightarrow> exn + 'a" where
  "py_index xs i =
     (if 0 \<le> i \<and> i < int (length xs) then Inr (xs ! nat i)
      else if i < 0 \<and> - int (length xs) \<le> i then Inr (xs ! nat (int (length xs) + i))
      else Inl IndexError)"

text \<open>
  \<open>py_int\<close> is Python's \<^verbatim>\<open>int(s)\<close> on a string (base 10): surrounding white space is
  dropped, one sign is allowed, the digits may be grouped by single underscores, and
  anything else raises \<^verbatim>\<open>ValueError\<close>, as does a literal of more than 4300 digits
  (the interpreter's default limit on integer string conversion; underscores do not count,
  leading zeros do).  The white space that \<^verbatim>\<open>int\<close> drops is, below 256, the code
  points 9 to 13, 32, 133 and 160; the separators 28 to 31 are not among them.
\<close>

definition py_isspace :: "char \<Rightarrow> bool" where
  "py_isspace c =
     ((of_char c :: nat) \<in> {9, 10, 11, 12, 13, 32, 133, 160})"

definition py_strip :: "string \<Rightarrow> string" where
  "py_strip s = rev (dropWhile py_isspace (rev (dropWhile py_isspace s)))"

definition is_digit :: "char \<Rightarrow> bool" where
  "is_digit c = (48 \<le> (of_char c :: nat) \<and> (of_char c :: nat) \<le> 57)"

definition digit_val :: "char \<Rightarrow> nat" where
  "digit_val c = of_char c - 48"

fun parse_digits :: "string \<Rightarrow> nat list option" where
  "parse_digits [] = None"
| "parse_digits [c] = (if is_digit c then Some [digit_val c] else None)"
| "parse_digits (c # u # cs) =
     (if \<not> is_digit c then None
      else if u = CHR ''_'' then map_option ((#) (digit_val c)) (parse_digits cs)
      else map_option ((#) (digit_val c)) (parse_digits (u # cs)))"

definition decimal :: "nat list \<Rightarrow> nat" where
  "decimal ds = foldl (\<lambda>a d. 10 * a + d) 0 ds"

definition max_str_digits :: nat where
  "max_str_digits = 4300"

definition py_nat :: "string \<Rightarrow> exn + int" where
  "py_nat s =
     (case parse_digits s of
        None \<Rightarrow> Inl ValueError
      | Some ds \<Rightarrow>
          if max_str_digits < length ds then Inl ValueError else Inr (int (decimal ds)))"

definition py_int :: "string \<Rightarrow> exn + int" where
  "py_int s =
     (case py_strip s of
        [] \<Rightarrow> Inl ValueError
      | c # cs \<Rightarrow>
          if c = CHR ''-'' then map_sum id uminus (py_nat cs)
          else if c = CHR ''+'' then py_nat cs
          else py_nat (c # cs))"

section \<open>The placeholder record and document-ID extraction\<close>

text \<open>
  \<^verbatim>\<open>PlaceholderTemplates\<close> (paperless\_api.py) has 23 string fields, each with its own
  template marker as default.  An instance is the list of its fields with their values,
  in declaration order, which is also what \<^verbatim>\<open>model_dump()\<close> returns.
\<close>

type_synonym PlaceholderTemplates = "(string \<times> string) list"

definition PlaceholderTemplates_defaults :: "(string \<times> string) list" where
  "PlaceholderTemplates_defaults =
     [(''correspondent'', ''{{correspondent}}''),
      (''document_type'', ''{{document_type}}''),
      (''owner_username'', ''{{owner_username}}''),
      (''added'', ''{{added}}''),
      (''added_year'', ''{{added_year}}''),
      (''added_year_short'', ''{{added_year_short}}''),
      (''added_month'', ''{{added_month}}''),
      (''added_month_name'', ''{{added_month_name}}''),
      (''added_month_name_short'', ''{{added_month_name_short}}''),
      (''added_day'', ''{{added_day}}''),
      (''added_time'', ''{{added_time}}''),
      (''original_filename'', ''{{original_filename}}''),
      (''filename'', ''{{filename}}''),
      (''doc_title'', ''{{doc_title}}''),
      (''created'', ''{{created}}''),
      (''created_year'', ''{{created_year}}''),
      (''created_year_short'', ''{{created_year_short}}''),
      (''created_month'', ''{{created_month}}''),
      (''created_month_name'', ''{{created_month_name}}''),
      (''created_month_name_short'', ''{{created_month_name_short}}''),
      (''created_day'', ''{{created_day}}''),
      (''created_time'', ''{{created_time}}''),
      (''doc_url'', ''{{doc_url}}'')]"

text \<open>Attribute access on an instance; a missing attribute raises \<^verbatim>\<open>AttributeError\<close>.\<close>

definition getattr :: "(string \<times> 'v) list \<Rightarrow> string \<Rightarrow> exn + 'v" where
  "getattr obj k = (case map_of obj k of None \<Rightarrow> Inl AttributeError | Some v \<Rightarrow> Inr v)"

text \<open>
  \<^verbatim>\<open>DocumentAddedEvent.get_document_id\<close>:
  \<^verbatim>\<open>int(self._payload.doc_url.split("/")[-2])\<close>.
\<close>

definition get_document_id :: "PlaceholderTemplates \<Rightarrow> exn + int" where
  "get_document_id payload =
     (case getattr payload ''doc_url'' of
        Inl e \<Rightarrow> Inl e
      | Inr doc_url \<Rightarrow>
          (case py_index (split_on CHR ''/'' doc_url) (- 2) of
             Inl e \<Rightarrow> Inl e
           | Inr seg \<Rightarrow> py_int seg))"

section \<open>Data model of the REST client (paperless\_api.py)\<close>

datatype TriggerType = CONSUMPTION_STARTED | DOCUMENT_ADDED | DOCUMENT_UPDATED | SCHEDULED

text \<open>\<^verbatim>\<open>TriggerType\<close> is an \<^verbatim>\<open>IntEnum\<close>: a member is the integer it names.\<close>

fun TriggerType_value :: "TriggerType \<Rightarrow> int" where
  "TriggerType_value CONSUMPTION_STARTED = 1"
| "TriggerType_value DOCUMENT_ADDED = 2"
| "TriggerType_value DOCUMENT_UPDATED = 3"
| "TriggerType_value SCHEDULED = 4"

text \<open>Python values that a filter mapping can carry (\<^verbatim>\<open>filters: dict\<close>).\<close>

datatype pyval =
    PNone
  | PBool bool
  | PInt int
  | PStr string
  | PList "pyval list"
  | PDict "(string \<times> pyval) list"

text \<open>
  Values of a decoded JSON body.  Of a number only the fact that it is not a string
  matters here.
\<close>

datatype json =
    JNull
  | JBool bool
  | JNum int
  | JStr string
  | JArr "json list"
  | JObj "(string \<times> json) list"

text \<open>
  \<^verbatim>\<open>WorkflowTrigger\<close>: the filters are assigned to an instance by name
  (\<^verbatim>\<open>setattr\<close>), without validation, so an instance is the list of its 19 fields with
  the Python values they hold.  \<open>WorkflowTrigger_new t\<close> is
  \<^verbatim>\<open>WorkflowTrigger(type=t)\<close>, every other field at its declared default.
\<close>

type_synonym WorkflowTrigger = "(string \<times> pyval) list"

definition WorkflowTrigger_new :: "TriggerType \<Rightarrow> WorkflowTrigger" where
  "WorkflowTrigger_new t =
     [(''id'', PNone),
      (''type'', PInt (TriggerType_value t)),
      (''sources'', PList []),
      (''filter_filename'', PNone),
      (''filter_path'', PNone),
      (''filter_mailrule'', PNone),
      (''matching_algorithm'', PInt 0),
      (''match'', PNone),
      (''is_insensitive'', PBool True),
      (''filter_has_tags'', PList []),
      (''filter_has_all_tags'', PList []),
      (''filter_has_not_tags'', PList []),
      (''filter_custom_field_query'', PNone),
      (''filter_has_not_correspondents'', PList []),
      (''filter_has_not_document_types'', PList []),
      (''filter_has_not_storage_paths'', PList []),
      (''filter_has_correspondent'', PNone),
      (''filter_has_document_type'', PNone),
      (''filter_has_storage_path'', PNone)]"

definition WorkflowTrigger_fields :: "string list" where
  "WorkflowTrigger_fields = map fst (WorkflowTrigger_new DOCUMENT_ADDED)"

text \<open>
  \<^verbatim>\<open>setattr(trigger, k, v)\<close> where \<open>k\<close> is the name of a field: the validation library
  stores the value in the instance as it is, without validating it.
\<close>

definition assign_field :: "WorkflowTrigger \<Rightarrow> string \<Rightarrow> pyval \<Rightarrow> WorkflowTrigger" where
  "assign_field obj k v = map (\<lambda>(k', v'). if k' = k then (k', v) else (k', v')) obj"

text \<open>
  What \<^verbatim>\<open>setattr\<close> does with a name that is no field is the validation library's
  business and depends on the name and on the value: it raises \<^verbatim>\<open>ValueError\<close>,
  \<^verbatim>\<open>AttributeError\<close> or \<^verbatim>\<open>TypeError\<close>, or stores an attribute outside the fields,
  or replaces the instance's dictionary, and what it did may change the assignments that
  follow.  The library is not part of the program, so this enters as a parameter: given
  the trigger as the assignments so far left it and the filters still to assign, the
  first of which names no field, a \<open>library\<close> is the exception that the assignments end
  with or the trigger that they leave.
\<close>

type_synonym library = "WorkflowTrigger \<Rightarrow> (string \<times> pyval) list \<Rightarrow> exn + WorkflowTrigger"

record WebhookConfig =
  wc_id :: "int option"
  wc_url :: string
  use_params :: bool
  as_json :: bool
  params :: "(string \<times> string) list"
  body :: string
  headers :: "(string \<times> string) list option"
  include_document :: bool

record WorkflowAction =
  wa_id :: "int option"
  wa_type :: int
  assign_title :: "string option"
  assign_tags :: "int list"
  assign_document_type :: "int option"
  assign_correspondent :: "int option"
  assign_storage_path :: "int option"
  assign_owner :: "int option"
  assign_view_users :: "int list"
  assign_view_groups :: "int list"
  assign_change_users :: "int list"
  assign_change_groups :: "int list"
  assign_custom_fields :: "int list"
  webhook :: "WebhookConfig option"

text \<open>\<^verbatim>\<open>WorkflowAction(type=ty, webhook=w)\<close>, every other field at its default.\<close>

definition WorkflowAction_new :: "int \<Rightarrow> WebhookConfig option \<Rightarrow> WorkflowAction" where
  "WorkflowAction_new ty w =
     \<lparr>wa_id = None, wa_type = ty, assign_title = None, assign_tags = [],
      assign_document_type = None, assign_correspondent = None,
      assign_storage_path = None, assign_owner = None, assign_view_users = [],
      assign_view_groups = [], assign_change_users = [], assign_change_groups = [],
      assign_custom_fields = [], webhook = w\<rparr>"

record Workflow =
  wf_id :: "int option"
  wf_name :: string
  wf_order :: int
  enabled :: bool
  triggers :: "WorkflowTrigger list"
  actions :: "WorkflowAction list"

text \<open>
  The constructor of \<^verbatim>\<open>PlaceholderTemplates\<close>, called with the entries of a
  dictionary as keywords: each field takes the keyword of its name when
  there is one, which must be a string (anything else is a \<^verbatim>\<open>ValidationError\<close>), and
  its default otherwise; keywords that name no field are ignored.
\<close>

fun validate_fields :: "(string \<times> string) list \<Rightarrow> (string \<rightharpoonup> json) \<Rightarrow> exn + (string \<times> string) list" where
  "validate_fields [] kw = Inr []"
| "validate_fields ((k, d) # ds) kw =
     (case (case kw k of
              None \<Rightarrow> Inr d
            | Some (JStr s) \<Rightarrow> Inr s
            | Some _ \<Rightarrow> Inl ValidationError) of
        Inl e \<Rightarrow> Inl e
      | Inr v \<Rightarrow>
          (case validate_fields ds kw of
             Inl e \<Rightarrow> Inl e
           | Inr r \<Rightarrow> Inr ((k, v) # r)))"

definition PlaceholderTemplates_new :: "(string \<rightharpoonup> json) \<Rightarrow> exn + PlaceholderTemplates" where
  "PlaceholderTemplates_new kw = validate_fields PlaceholderTemplates_defaults kw"

section \<open>The remote workflow store\<close>

text \<open>
  The server is the environment of the program.  It keeps the workflows with the
  identifiers it assigned, answers a listing page by page, and records every request it
  receives together with whether it succeeded.  \<open>faults\<close> is the schedule of transport
  and server failures: the head says whether the next request fails, and a failed request
  changes nothing but the schedule and the log.

  A DELETE names its target in the path, \<^verbatim>\<open>f"/api/workflows/{workflow_id}/"\<close>, so the
  target is whatever value is interpolated there: an integer gives the path of that
  identifier; a \<^verbatim>\<open>Workflow\<close> instance gives the listing of its fields
  (\<^verbatim>\<open>id=... name=... order=...\<close>), which is the path of no workflow.
\<close>

datatype url_arg = IdArg int | ModelArg Workflow

datatype request =
    GetWorkflows nat
  | PostWorkflow Workflow
  | DeleteWorkflow url_arg

record server =
  store :: "Workflow list"
  next_id :: int
  page_size :: nat
  faults :: "bool list"
  log :: "(request \<times> bool) list"

definition next_fault :: "server \<Rightarrow> bool" where
  "next_fault s = (case faults s of [] \<Rightarrow> False | b # _ \<Rightarrow> b)"

definition served :: "request \<Rightarrow> bool \<Rightarrow> server \<Rightarrow> server" where
  "served rq ok s = s\<lparr>faults := tl (faults s), log := log s @ [(rq, ok)]\<rparr>"

text \<open>Page \<open>p\<close> (from 1) of the listing, and whether another page follows.\<close>

definition page_of :: "server \<Rightarrow> nat \<Rightarrow> Workflow list \<times> bool" where
  "page_of s p =
     (if page_size s = 0 then (store s, False)
      else (take (page_size s) (drop ((p - 1) * page_size s) (store s)),
            p * page_size s < length (store s)))"

text \<open>\<^verbatim>\<open>PaperlessAPI.workflows(page)\<close>: one GET, \<^verbatim>\<open>PaperlessAPIError\<close> when it fails.\<close>

definition workflows :: "nat \<Rightarrow> server \<Rightarrow> (exn + Workflow list \<times> bool) \<times> server" where
  "workflows p s =
     (if next_fault s then (Inl PaperlessAPIError, served (GetWorkflows p) False s)
      else (Inr (page_of s p), served (GetWorkflows p) True s))"

text \<open>
  \<^verbatim>\<open>PaperlessAPI.workflows_iter\<close>, consumed to the end: pages are requested from
  \<open>p\<close> on until one has no successor; a failing page aborts the whole listing.
\<close>

function workflows_iter_from :: "nat \<Rightarrow> server \<Rightarrow> (exn + Workflow list) \<times> server" where
  "workflows_iter_from p s =
     (case workflows p s of
        (Inl e, s') \<Rightarrow> (Inl e, s')
      | (Inr (results, has_next), s') \<Rightarrow>
          if has_next then
            (case workflows_iter_from (p + 1) s' of
               (Inl e, s'') \<Rightarrow> (Inl e, s'')
             | (Inr rest, s'') \<Rightarrow> (Inr (results @ rest), s''))
          else (Inr results, s'))"
  by pat_completeness auto
termination
proof (relation "measure (\<lambda>(p, s). length (store s) - p * page_size s)")
  show "wf (measure (\<lambda>(p, s). length (store s) - p * page_size s))"
    by simp
next
  fix p :: nat and s :: server and x1 s' x2 results has_next
  assume a: "(x1, s') = workflows p s" "x1 = Inr x2" "(results, has_next) = x2" "has_next"
  have ps: "page_size s \<noteq> 0" and lt: "p * page_size s < length (store s)"
    and s': "store s' = store s" "page_size s' = page_size s"
    using a by (auto simp: workflows_def page_of_def served_def split: if_splits)
  show "((p + 1, s'), (p, s)) \<in> measure (\<lambda>(p, s). length (store s) - p * page_size s)"
    using ps lt s' by simp
qed

declare workflows_iter_from.simps [simp del]

definition workflows_iter :: "server \<Rightarrow> (exn + Workflow list) \<times> server" where
  "workflows_iter s = workflows_iter_from 1 s"

text \<open>
  \<^verbatim>\<open>PaperlessAPI.create_workflow\<close>: the body is the workflow without its \<^verbatim>\<open>id\<close>;
  the server stores it under a fresh identifier and returns what it stored.
\<close>

definition create_workflow :: "Workflow \<Rightarrow> server \<Rightarrow> (exn + Workflow) \<times> server" where
  "create_workflow w s =
     (let body = w\<lparr>wf_id := None\<rparr> in
      if next_fault s then (Inl PaperlessAPIError, served (PostWorkflow body) False s)
      else
        (let created = body\<lparr>wf_id := Some (next_id s)\<rparr> in
         (Inr created,
          (served (PostWorkflow body) True s)
            \<lparr>store := store s @ [created], next_id := next_id s + 1\<rparr>)))"

text \<open>
  \<^verbatim>\<open>PaperlessAPI.delete_workflow\<close>: one DELETE on the path built from the argument;
  a path that names no stored workflow is answered 404, which the client raises as
  \<^verbatim>\<open>PaperlessAPIError\<close>.
\<close>

definition delete_workflow :: "url_arg \<Rightarrow> server \<Rightarrow> (exn + bool) \<times> server" where
  "delete_workflow a s =
     (if next_fault s then (Inl PaperlessAPIError, served (DeleteWorkflow a) False s)
      else
        (case a of
           IdArg n \<Rightarrow>
             if Some n \<in> wf_id ` set (store s)
             then (Inr True,
                   (served (DeleteWorkflow a) True s)
                     \<lparr>store := filter (\<lambda>w. wf_id w \<noteq> Some n) (store s)\<rparr>)
             else (Inl PaperlessAPIError, served (DeleteWorkflow a) False s)
         | ModelArg w \<Rightarrow> (Inl PaperlessAPIError, served (DeleteWorkflow a) False s)))"

section \<open>Handlers and the hook registry (paperless\_hooks.py)\<close>

text \<open>
  The context handed to a callback: a \<^verbatim>\<open>DocumentAddedEvent\<close> or a
  \<^verbatim>\<open>DocumentUpdatedEvent\<close> wrapping the decoded payload, or the decoded payload itself.
\<close>

datatype event =
    DocumentAddedEvent PlaceholderTemplates
  | DocumentUpdatedEvent PlaceholderTemplates
  | RawPayload PlaceholderTemplates

text \<open>
  A user callback is any callable: it has a body, which acts on the user's own state
  \<open>'u\<close> and may raise, and it may or may not have a name (\<^verbatim>\<open>func.__name__\<close>; a
  function has one, a \<^verbatim>\<open>functools.partial\<close> object has none).
\<close>

record 'u callable =
  fn_name :: "string option"
  fn_call :: "event \<Rightarrow> 'u \<Rightarrow> exn option \<times> 'u"

record 'u EventHandler =
  func :: "'u callable"
  event_type :: TriggerType
  index :: int
  url :: "string option"
  workflow :: "Workflow option"
  name :: string
  filters :: "(string \<times> pyval) list"

text \<open>
  \<^verbatim>\<open>EventHandler.__init__\<close>: \<^verbatim>\<open>func.__name__\<close> raises \<^verbatim>\<open>AttributeError\<close> when
  the callback has no name; \<^verbatim>\<open>filters or {}\<close> turns \<^verbatim>\<open>None\<close> into the empty
  mapping.  The filters are stored as they are.
\<close>

definition EventHandler_new ::
  "'u callable \<Rightarrow> TriggerType \<Rightarrow> (string \<times> pyval) list option \<Rightarrow> exn + 'u EventHandler" where
  "EventHandler_new f t fs =
     (case fn_name f of
        None \<Rightarrow> Inl AttributeError
      | Some n \<Rightarrow>
          Inr \<lparr>func = f, event_type = t, index = 0, url = None, workflow = None,
               name = n, filters = (case fs of None \<Rightarrow> [] | Some m \<Rightarrow> m)\<rparr>)"

text \<open>\<^verbatim>\<open>EventHandler.__call__\<close>: \<^verbatim>\<open>self.func(event)\<close>.\<close>

definition EventHandler_call :: "'u EventHandler \<Rightarrow> event \<Rightarrow> 'u \<Rightarrow> exn option \<times> 'u" where
  "EventHandler_call h ev u = fn_call (func h) ev u"

text \<open>
  A backend adapter is known to the registry only through \<^verbatim>\<open>add_json_endpoint\<close>; it
  is the list of the routes registered with it, each a path and the function that
  handles a decoded JSON body.
\<close>

type_synonym 'u json_endpoint = "(string \<rightharpoonup> json) \<Rightarrow> 'u \<Rightarrow> exn option \<times> 'u"

type_synonym 'u backend = "(string \<times> 'u json_endpoint) list"

definition add_json_endpoint :: "string \<Rightarrow> 'u json_endpoint \<Rightarrow> 'u backend \<Rightarrow> 'u backend" where
  "add_json_endpoint path json_handler b = b @ [(path, json_handler)]"

record 'u PaperlessHooks =
  paperless_url :: string
  paperless_api_key :: string
  webhook_base_url :: string
  workflow_start_index :: int
  backend :: "'u backend option"
  event_handlers :: "TriggerType \<Rightarrow> 'u EventHandler list"
  registered_workflows :: "Workflow list"

definition rstrip_char :: "char \<Rightarrow> string \<Rightarrow> string" where
  "rstrip_char c s = rev (dropWhile (\<lambda>x. x = c) (rev s))"

text \<open>
  \<^verbatim>\<open>PaperlessHooks.__init__\<close>; building the REST client raises when the API key is
  empty.
\<close>

definition PaperlessHooks_new ::
  "string \<Rightarrow> string \<Rightarrow> string \<Rightarrow> 'u backend option \<Rightarrow> int \<Rightarrow> exn + 'u PaperlessHooks" where
  "PaperlessHooks_new p_url api_key hook_url be start_index =
     (if api_key = [] then Inl PaperlessAPIError
      else Inr \<lparr>paperless_url = rstrip_char CHR ''/'' p_url,
                paperless_api_key = api_key,
                webhook_base_url = rstrip_char CHR ''/'' hook_url,
                workflow_start_index = start_index,
                backend = be,
                event_handlers = (\<lambda>_. []),
                registered_workflows = []\<rparr>)"

text \<open>The keys of \<^verbatim>\<open>event_handlers\<close>, in the order in which the dictionary iterates.\<close>

definition trigger_types :: "TriggerType list" where
  "trigger_types = [CONSUMPTION_STARTED, DOCUMENT_ADDED, DOCUMENT_UPDATED, SCHEDULED]"

definition all_handlers :: "'u PaperlessHooks \<Rightarrow> 'u EventHandler list" where
  "all_handlers st = concat (map (event_handlers st) trigger_types)"

definition add_event_handler :: "'u EventHandler \<Rightarrow> 'u PaperlessHooks \<Rightarrow> 'u PaperlessHooks" where
  "add_event_handler h st =
     st\<lparr>event_handlers :=
          (event_handlers st)(event_type h := event_handlers st (event_type h) @ [h])\<rparr>"

text \<open>
  The four registration decorators, applied to the callback: each builds the handler and
  files it; none looks at the filters.
\<close>

definition consumption_started ::
  "(string \<times> pyval) list \<Rightarrow> 'u callable \<Rightarrow> 'u PaperlessHooks \<Rightarrow> exn + 'u PaperlessHooks" where
  "consumption_started fs f st =
     (case EventHandler_new f CONSUMPTION_STARTED (Some fs) of
        Inl e \<Rightarrow> Inl e
      | Inr handler \<Rightarrow> Inr (add_event_handler handler st))"

definition document_added ::
  "(string \<times> pyval) list option \<Rightarrow> 'u callable \<Rightarrow> 'u PaperlessHooks
     \<Rightarrow> exn + 'u PaperlessHooks" where
  "document_added fs f st =
     (case EventHandler_new f DOCUMENT_ADDED fs of
        Inl e \<Rightarrow> Inl e
      | Inr handler \<Rightarrow> Inr (add_event_handler handler st))"

definition document_updated ::
  "(string \<times> pyval) list option \<Rightarrow> 'u callable \<Rightarrow> 'u PaperlessHooks
     \<Rightarrow> exn + 'u PaperlessHooks" where
  "document_updated fs f st =
     (case EventHandler_new f DOCUMENT_UPDATED fs of
        Inl e \<Rightarrow> Inl e
      | Inr handler \<Rightarrow> Inr (add_event_handler handler st))"

definition scheduled ::
  "(string \<times> pyval) list option \<Rightarrow> 'u callable \<Rightarrow> 'u PaperlessHooks
     \<Rightarrow> exn + 'u PaperlessHooks" where
  "scheduled fs f st =
     (case EventHandler_new f SCHEDULED fs of
        Inl e \<Rightarrow> Inl e
      | Inr handler \<Rightarrow> Inr (add_event_handler handler st))"

subsection \<open>\<^verbatim>\<open>init\<close>: synthesis of the workflows\<close>

text \<open>
  The loop \<^verbatim>\<open>for filter_name, filter_value in handler.filters.items(): setattr(...)\<close>:
  fields are assigned one after the other; from the first name that is no field on, the
  outcome is the library's.
\<close>

fun apply_filters ::
  "library \<Rightarrow> WorkflowTrigger \<Rightarrow> (string \<times> pyval) list \<Rightarrow> exn + WorkflowTrigger" where
  "apply_filters lib tr [] = Inr tr"
| "apply_filters lib tr ((k, v) # fs) =
     (if k \<in> set WorkflowTrigger_fields then apply_filters lib (assign_field tr k v) fs
      else lib tr ((k, v) # fs))"

text \<open>The body of the inner loop of \<^verbatim>\<open>init\<close>, up to the workflow it builds.\<close>

definition make_workflow ::
  "library \<Rightarrow> 'u PaperlessHooks \<Rightarrow> TriggerType \<Rightarrow> 'u EventHandler \<Rightarrow> exn + Workflow" where
  "make_workflow lib st trigger_type h =
     (let webhook_url = webhook_base_url st @ ''/'' @ name h in
      case apply_filters lib (WorkflowTrigger_new trigger_type) (filters h) of
        Inl e \<Rightarrow> Inl e
      | Inr trigger \<Rightarrow>
          (case PlaceholderTemplates_new Map.empty of
             Inl e \<Rightarrow> Inl e
           | Inr tmpl \<Rightarrow>
               (let webhook_config =
                      \<lparr>wc_id = None, wc_url = webhook_url, use_params = True,
                       as_json = True, params = tmpl, body = [], headers = None,
                       include_document = False\<rparr>;
                    action = WorkflowAction_new 4 (Some webhook_config);
                    wf_name = ''paperless-hooks-'' @ name h
                in Inr \<lparr>wf_id = None, wf_name = wf_name,
                        wf_order = workflow_start_index st, enabled = True,
                        triggers = [trigger], actions = [action]\<rparr>)))"

text \<open>
  The inner loop over the handlers of one trigger type.  A handler whose workflow has
  been built carries it, and its route path, from then on; an exception leaves the
  handlers not yet reached as they were.  The result is the exception if any, the
  handlers, and the workflows appended to \<^verbatim>\<open>workflows_to_create\<close>.
\<close>

fun synth_handlers ::
  "library \<Rightarrow> 'u PaperlessHooks \<Rightarrow> TriggerType \<Rightarrow> 'u EventHandler list
     \<Rightarrow> exn option \<times> 'u EventHandler list \<times> Workflow list" where
  "synth_handlers lib st t [] = (None, [], [])"
| "synth_handlers lib st t (h # hs) =
     (case make_workflow lib st t h of
        Inl e \<Rightarrow> (Some e, h # hs, [])
      | Inr w \<Rightarrow>
          (case synth_handlers lib st t hs of
             (r, hs', ws) \<Rightarrow>
               (r, h\<lparr>url := Some (''/'' @ name h), workflow := Some w\<rparr> # hs', w # ws)))"

text \<open>The outer loop \<^verbatim>\<open>for trigger_type, handlers in self.event_handlers.items()\<close>.\<close>

fun synth_all ::
  "library \<Rightarrow> 'u PaperlessHooks \<Rightarrow> TriggerType list
     \<Rightarrow> exn option \<times> 'u PaperlessHooks \<times> Workflow list" where
  "synth_all lib st [] = (None, st, [])"
| "synth_all lib st (t # ts) =
     (case synth_handlers lib st t (event_handlers st t) of
        (Some e, hs', ws) \<Rightarrow>
          (Some e, st\<lparr>event_handlers := (event_handlers st)(t := hs')\<rparr>, ws)
      | (None, hs', ws) \<Rightarrow>
          (case synth_all lib (st\<lparr>event_handlers := (event_handlers st)(t := hs')\<rparr>) ts of
             (r, st', ws') \<Rightarrow> (r, st', ws @ ws')))"

subsection \<open>\<^verbatim>\<open>init\<close>: reconciliation with the remote store\<close>

text \<open>
  The loop of \<^verbatim>\<open>_register_workflows\<close> over the workflows, against the names listed
  before it started; a failed creation is logged and the loop goes on.
\<close>

fun create_missing :: "string list \<Rightarrow> Workflow list \<Rightarrow> server \<Rightarrow> Workflow list \<times> server" where
  "create_missing existing_workflows [] s = ([], s)"
| "create_missing existing_workflows (w # ws) s =
     (if wf_name w \<notin> set existing_workflows then
        (case create_workflow w s of
           (Inr created_workflow, s') \<Rightarrow>
             (case create_missing existing_workflows ws s' of
                (registered, s'') \<Rightarrow> (created_workflow # registered, s''))
         | (Inl e, s') \<Rightarrow> create_missing existing_workflows ws s')
      else create_missing existing_workflows ws s)"

definition register_workflows :: "Workflow list \<Rightarrow> server \<Rightarrow> (exn + Workflow list) \<times> server" where
  "register_workflows ws s =
     (case workflows_iter s of
        (Inl e, s') \<Rightarrow> (Inl e, s')
      | (Inr remote, s') \<Rightarrow>
          (case create_missing (map wf_name remote) ws s' of
             (registered, s'') \<Rightarrow> (Inr registered, s'')))"

subsection \<open>Routes and dispatch\<close>

text \<open>
  The closure \<^verbatim>\<open>_json_handler\<close> of \<^verbatim>\<open>_setup_routes\<close>, for the handler it captured.
\<close>

definition event_for :: "TriggerType \<Rightarrow> PlaceholderTemplates \<Rightarrow> event" where
  "event_for t tmpl =
     (case t of
        DOCUMENT_ADDED \<Rightarrow> DocumentAddedEvent tmpl
      | DOCUMENT_UPDATED \<Rightarrow> DocumentUpdatedEvent tmpl
      | CONSUMPTION_STARTED \<Rightarrow> RawPayload tmpl
      | SCHEDULED \<Rightarrow> RawPayload tmpl)"

definition json_handler :: "'u EventHandler \<Rightarrow> 'u json_endpoint" where
  "json_handler h json_data u =
     (case PlaceholderTemplates_new json_data of
        Inl e \<Rightarrow> (Some e, u)
      | Inr tmpl \<Rightarrow> EventHandler_call h (event_for (event_type h) tmpl) u)"

text \<open>
  \<^verbatim>\<open>_setup_routes\<close>: a handler without a route path is skipped; calling
  \<^verbatim>\<open>add_json_endpoint\<close> on a backend that is \<^verbatim>\<open>None\<close> raises \<^verbatim>\<open>AttributeError\<close>.
\<close>

fun add_routes :: "'u EventHandler list \<Rightarrow> 'u backend option \<Rightarrow> exn option \<times> 'u backend option" where
  "add_routes [] b = (None, b)"
| "add_routes (h # hs) b =
     (case url h of
        None \<Rightarrow> add_routes hs b
      | Some path \<Rightarrow>
          if path = [] then add_routes hs b
          else
            (case b of
               None \<Rightarrow> (Some AttributeError, None)
             | Some routes \<Rightarrow>
                 add_routes hs (Some (add_json_endpoint path (json_handler h) routes))))"

definition setup_routes :: "'u PaperlessHooks \<Rightarrow> exn option \<times> 'u PaperlessHooks" where
  "setup_routes st =
     (case add_routes (all_handlers st) (backend st) of
        (r, b) \<Rightarrow> (r, st\<lparr>backend := b\<rparr>))"

subsection \<open>\<^verbatim>\<open>init\<close> and \<^verbatim>\<open>cleanup\<close>\<close>

text \<open>
  The result of \<^verbatim>\<open>init\<close> is the exception it raised, if any, and the registry and the
  server as it left them.
\<close>

definition init ::
  "library \<Rightarrow> 'u PaperlessHooks \<Rightarrow> server \<Rightarrow> exn option \<times> 'u PaperlessHooks \<times> server" where
  "init lib st s =
     (case synth_all lib st trigger_types of
        (Some e, st1, workflows_to_create) \<Rightarrow> (Some e, st1, s)
      | (None, st1, workflows_to_create) \<Rightarrow>
          if workflows_to_create \<noteq> [] then
            (case register_workflows workflows_to_create s of
               (Inl e, s') \<Rightarrow> (Some e, st1, s')
             | (Inr registered, s') \<Rightarrow>
                 (case setup_routes
                         (st1\<lparr>registered_workflows := registered_workflows st1 @ registered\<rparr>) of
                    (r, st2) \<Rightarrow> (r, st2, s')))
          else (case setup_routes st1 of (r, st2) \<Rightarrow> (r, st2, s)))"

text \<open>
  \<^verbatim>\<open>cleanup\<close>: every entry of the ledger is passed to \<^verbatim>\<open>delete_workflow\<close> as it is;
  the entries are the \<^verbatim>\<open>Workflow\<close> instances that \<^verbatim>\<open>create_workflow\<close> returned.
  Whether a deletion succeeds or raises only changes what is logged.
\<close>

fun delete_all :: "Workflow list \<Rightarrow> server \<Rightarrow> server" where
  "delete_all [] s = s"
| "delete_all (workflow_id # rest) s =
     (case delete_workflow (ModelArg workflow_id) s of
        (Inr ok, s') \<Rightarrow> delete_all rest s'
      | (Inl e, s') \<Rightarrow> delete_all rest s')"

definition cleanup :: "'u PaperlessHooks \<Rightarrow> server \<Rightarrow> 'u PaperlessHooks \<times> server" where
  "cleanup st s =
     (st\<lparr>registered_workflows := []\<rparr>, delete_all (registered_workflows st) s)"

section \<open>Notions used in the statements, and concrete inputs\<close>

text \<open>A decoded payload whose document URL is \<open>u\<close>, every other field at its default.\<close>

definition payload_with_doc_url :: "string \<Rightarrow> PlaceholderTemplates" where
  "payload_with_doc_url u = butlast PlaceholderTemplates_defaults @ [(''doc_url'', u)]"

text \<open>A character that occurs in no integer literal accepted by \<open>py_int\<close>.\<close>

definition not_in_int_literal :: "char \<Rightarrow> bool" where
  "not_in_int_literal c =
     (\<not> is_digit c \<and> c \<noteq> CHR ''_'' \<and> c \<noteq> CHR ''+'' \<and> c \<noteq> CHR ''-'' \<and> \<not> py_isspace c)"

text \<open>
  \<open>fields_only h\<close>: every filter key of the handler names a field of the trigger.
  \<open>assignable lib t h\<close>: the assignment of the handler's filters to a fresh trigger of
  type \<open>t\<close> ends without an exception; \<open>all_assignable lib st\<close>: so it does for every
  handler of the registry.
\<close>

definition fields_only :: "'u EventHandler \<Rightarrow> bool" where
  "fields_only h = (\<forall>k\<in>fst ` set (filters h). k \<in> set WorkflowTrigger_fields)"

definition assignable :: "library \<Rightarrow> TriggerType \<Rightarrow> 'u EventHandler \<Rightarrow> bool" where
  "assignable lib t h =
     (\<exists>tr. apply_filters lib (WorkflowTrigger_new t) (filters h) = Inr tr)"

definition all_assignable :: "library \<Rightarrow> 'u PaperlessHooks \<Rightarrow> bool" where
  "all_assignable lib st = (\<forall>t. \<forall>h\<in>set (event_handlers st t). assignable lib t h)"

text \<open>
  \<open>refuses lib k e\<close>: the library answers the assignment of the name \<open>k\<close> with the
  exception \<open>e\<close>, whatever the trigger, the value and the assignments still to come.
\<close>

definition refuses :: "library \<Rightarrow> string \<Rightarrow> exn \<Rightarrow> bool" where
  "refuses lib k e = (\<forall>tr v fs. lib tr ((k, v) # fs) = Inl e)"

text \<open>
  A library that answers every name that is no field with \<^verbatim>\<open>ValueError\<close>, which is how
  the validation library answers a name it knows nothing of (``object has no field'').
  It stands for the library in the concrete runs below: their filter keys are names of
  fields, where no library is consulted, but for the one key \<^verbatim>\<open>no_such_filter\<close>, which
  is of that kind.
\<close>

definition no_such_field :: library where
  "no_such_field tr fs = Inl ValueError"

text \<open>
  \<open>synthesized lib st t h h'\<close>: one pass of the inner loop of \<^verbatim>\<open>init\<close> turns the handler
  \<open>h\<close> into \<open>h'\<close>.
\<close>

definition synthesized ::
  "library \<Rightarrow> 'u PaperlessHooks \<Rightarrow> TriggerType \<Rightarrow> 'u EventHandler \<Rightarrow> 'u EventHandler
     \<Rightarrow> bool" where
  "synthesized lib st t h h' =
     (\<exists>w. make_workflow lib st t h = Inr w \<and>
          h' = h\<lparr>url := Some (''/'' @ name h), workflow := Some w\<rparr>)"

text \<open>The webhook configuration that \<^verbatim>\<open>init\<close> builds for a handler of the given name.\<close>

definition webhook_config_for :: "'u PaperlessHooks \<Rightarrow> string \<Rightarrow> WebhookConfig" where
  "webhook_config_for st n =
     \<lparr>wc_id = None, wc_url = webhook_base_url st @ ''/'' @ n, use_params = True,
      as_json = True, params = PlaceholderTemplates_defaults, body = [], headers = None,
      include_document = False\<rparr>"

text \<open>
  What a log says: the requests the server received between two of its states, the
  workflows that were posted, and those whose creation succeeded.
\<close>

definition new_log :: "server \<Rightarrow> server \<Rightarrow> (request \<times> bool) list" where
  "new_log s s' = drop (length (log s)) (log s')"

fun posted :: "request \<Rightarrow> Workflow list" where
  "posted (PostWorkflow w) = [w]"
| "posted (GetWorkflows p) = []"
| "posted (DeleteWorkflow a) = []"

definition creation_calls :: "(request \<times> bool) list \<Rightarrow> Workflow list" where
  "creation_calls es = concat (map (posted \<circ> fst) es)"

definition listing_calls :: "(request \<times> bool) list \<Rightarrow> nat list" where
  "listing_calls es = concat (map (\<lambda>e. case fst e of GetWorkflows p \<Rightarrow> [p] | _ \<Rightarrow> []) es)"

text \<open>
  The placeholder record that a JSON body denotes: every field takes the string the body
  gives under its name, and its template marker when the body has no such key; keys that
  name no field play no part.
\<close>

definition placeholder_record :: "(string \<rightharpoonup> json) \<Rightarrow> PlaceholderTemplates" where
  "placeholder_record json_data =
     map (\<lambda>(k, d). (k, case json_data k of Some (JStr s) \<Rightarrow> s | _ \<Rightarrow> d))
       PlaceholderTemplates_defaults"

text \<open>\<open>string_valued json_data\<close>: the body gives nothing but strings under the field names.\<close>

definition string_valued :: "(string \<rightharpoonup> json) \<Rightarrow> bool" where
  "string_valued json_data =
     (\<forall>k\<in>fst ` set PlaceholderTemplates_defaults. \<forall>v. json_data k = Some v \<longrightarrow> (\<exists>s. v = JStr s))"

text \<open>
  Callbacks whose state is the list of the contexts they were called with: one returns,
  one raises after recording the call, and one has no name.
\<close>

definition recording_callback :: "string \<Rightarrow> event list callable" where
  "recording_callback n = \<lparr>fn_name = Some n, fn_call = (\<lambda>ev u. (None, u @ [ev]))\<rparr>"

definition raising_callback :: "string \<Rightarrow> event list callable" where
  "raising_callback n =
     \<lparr>fn_name = Some n, fn_call = (\<lambda>ev u. (Some (UserException ''boom''), u @ [ev]))\<rparr>"

definition nameless_callback :: "event list callable" where
  "nameless_callback = \<lparr>fn_name = None, fn_call = (\<lambda>ev u. (None, u @ [ev]))\<rparr>"

text \<open>
  The handler that registration builds from a callback of the given name, and the
  registry after a decorator has been applied, which is the registry as it was when the
  decorator raised.
\<close>

definition handler_for ::
  "'u callable \<Rightarrow> string \<Rightarrow> TriggerType \<Rightarrow> (string \<times> pyval) list \<Rightarrow> 'u EventHandler" where
  "handler_for f n t fs =
     \<lparr>func = f, event_type = t, index = 0, url = None, workflow = None, name = n,
      filters = fs\<rparr>"

definition registry_after ::
  "('u PaperlessHooks \<Rightarrow> exn + 'u PaperlessHooks) \<Rightarrow> 'u PaperlessHooks \<Rightarrow> 'u PaperlessHooks" where
  "registry_after decorate st = (case decorate st of Inl e \<Rightarrow> st | Inr st' \<Rightarrow> st')"

definition routes_of :: "'u backend option \<Rightarrow> 'u backend" where
  "routes_of b = (case b of None \<Rightarrow> [] | Some routes \<Rightarrow> routes)"

text \<open>A registry as the constructor leaves it, and an empty server that never fails.\<close>

definition registry0 :: "event list PaperlessHooks" where
  "registry0 =
     \<lparr>paperless_url = ''http://paperless'', paperless_api_key = ''token'',
      webhook_base_url = ''http://hooks'', workflow_start_index = 200,
      backend = Some [], event_handlers = (\<lambda>_. []), registered_workflows = []\<rparr>"

definition server0 :: server where
  "server0 = \<lparr>store = [], next_id = 1, page_size = 25, faults = [], log = []\<rparr>"

text \<open>
  Two handlers, and a server that already holds the workflow of the first one and fails
  the second request it receives (the first being the listing).
\<close>

definition registry2 :: "event list PaperlessHooks" where
  "registry2 =
     registry_after (document_updated None (recording_callback ''on_updated''))
       (registry_after (document_added None (recording_callback ''on_added'')) registry0)"



text \<open>
  A registry as registration leaves it: every handler is filed under its own trigger type
  and has no workflow yet.
\<close>

definition registered :: "'u PaperlessHooks \<Rightarrow> bool" where
  "registered st =
     (\<forall>t. \<forall>h\<in>set (event_handlers st t). event_type h = t \<and> workflow h = None)"


definition registry1 :: "event list PaperlessHooks" where
  "registry1 =
     registry_after
       (document_added (Some [(''filter_filename'', PStr ''*.pdf'')])
          (recording_callback ''on_doc'')) registry0"

text \<open>A handler registered with a filter key that is no field of the trigger.\<close>

definition registry_unknown_filter :: "event list PaperlessHooks" where
  "registry_unknown_filter =
     registry_after
       (document_added (Some [(''no_such_filter'', PInt 1)]) (recording_callback ''on_doc''))
       registry0"


text \<open>Two handlers whose callbacks have the same name, under different trigger types.\<close>

definition registry_twins :: "event list PaperlessHooks" where
  "registry_twins =
     registry_after (document_updated None (recording_callback ''on_doc''))
       (registry_after (document_added None (recording_callback ''on_doc'')) registry0)"

text \<open>Two runs of \<^verbatim>\<open>init\<close> in a row, on a registry of two handlers and a server without faults.\<close>

definition first_run :: "exn option \<times> event list PaperlessHooks \<times> server" where
  "first_run = init no_such_field registry2 server0"

definition second_run :: "exn option \<times> event list PaperlessHooks \<times> server" where
  "second_run = init no_such_field (fst (snd first_run)) (snd (snd first_run))"

text \<open>One handler registered, \<^verbatim>\<open>init\<close> on an empty server, then \<^verbatim>\<open>cleanup\<close>.\<close>

definition created_run :: "exn option \<times> event list PaperlessHooks \<times> server" where
  "created_run = init no_such_field registry1 server0"

definition cleanup_run :: "event list PaperlessHooks \<times> server" where
  "cleanup_run = cleanup (fst (snd created_run)) (snd (snd created_run))"

section \<open>Document-ID extraction\<close>

lemma split_on_not_Nil: "split_on c s \<noteq> []"
  by (induction s) (auto split: list.splits)

lemma split_on_append: "split_on c (p @ c # s) = split_on c p @ split_on c s"
  by (induction p) (auto split: list.splits simp: split_on_not_Nil)

lemma split_on_absent: "c \<notin> set s \<Longrightarrow> split_on c s = [s]"
  by (induction s) (auto split: list.splits)

lemma py_index_second_last: "py_index (xs @ [a, b]) (- 2) = Inr a"
  by (simp add: py_index_def nth_append)

lemma py_index_singleton: "py_index [a] (- 2) = Inl IndexError"
  by (simp add: py_index_def)

lemma parse_digits_all:
  "s \<noteq> [] \<Longrightarrow> \<forall>c\<in>set s. is_digit c \<Longrightarrow> parse_digits s = Some (map digit_val s)"
proof (induction s rule: parse_digits.induct)
  case 1
  then show ?case by simp
next
  case (2 c)
  then show ?case by simp
next
  case (3 c u cs)
  have "u \<noteq> CHR ''_''"
    using 3(4) by (auto simp: is_digit_def)
  with 3 show ?case by simp
qed

lemma parse_digits_bad:
  "c \<in> set s \<Longrightarrow> \<not> is_digit c \<Longrightarrow> c \<noteq> CHR ''_'' \<Longrightarrow> parse_digits s = None"
  by (induction s rule: parse_digits.induct) auto

lemma digit_not_space: "is_digit c \<Longrightarrow> \<not> py_isspace c"
  by (auto simp: is_digit_def py_isspace_def)

lemma dropWhile_keeps: "x \<in> set xs \<Longrightarrow> \<not> P x \<Longrightarrow> x \<in> set (dropWhile P xs)"
  by (induction xs) auto

lemma py_strip_keeps: "c \<in> set s \<Longrightarrow> \<not> py_isspace c \<Longrightarrow> c \<in> set (py_strip s)"
  by (simp add: py_strip_def dropWhile_keeps)

lemma py_strip_digits:
  assumes "\<forall>c\<in>set s. is_digit c"
  shows "py_strip s = s"
proof -
  have a: "dropWhile py_isspace s = s"
    using assms by (cases s) (auto simp: digit_not_space)
  have "dropWhile py_isspace (rev s) = rev s"
    using assms by (cases "rev s") (auto simp: digit_not_space dest: arg_cong[where f=set])
  then show ?thesis
    by (simp add: py_strip_def a)
qed

lemma py_int_digits:
  assumes "s \<noteq> []" "\<forall>c\<in>set s. is_digit c" "length s \<le> max_str_digits"
  shows "py_int s = Inr (int (decimal (map digit_val s)))"
proof -
  obtain c cs where s: "s = c # cs"
    using assms(1) by (cases s) auto
  have "is_digit c"
    using assms(2) s by simp
  then have "c \<noteq> CHR ''-''" "c \<noteq> CHR ''+''"
    by (auto simp: is_digit_def)
  then show ?thesis
    using assms parse_digits_all[OF assms(1,2)] s
    by (simp add: py_int_def py_strip_digits py_nat_def)
qed

lemma py_nat_bad:
  "c \<in> set s \<Longrightarrow> \<not> is_digit c \<Longrightarrow> c \<noteq> CHR ''_'' \<Longrightarrow> py_nat s = Inl ValueError"
  by (simp add: py_nat_def parse_digits_bad)

lemma py_int_bad:
  assumes "c \<in> set s" "not_in_int_literal c"
  shows "py_int s = Inl ValueError"
proof -
  have c: "\<not> is_digit c" "c \<noteq> CHR ''_''" "c \<noteq> CHR ''+''" "c \<noteq> CHR ''-''" "\<not> py_isspace c"
    using assms(2) by (simp_all add: not_in_int_literal_def)
  have m: "c \<in> set (py_strip s)"
    using assms(1) c by (simp add: py_strip_keeps)
  show ?thesis
  proof (cases "py_strip s")
    case Nil
    then show ?thesis by (simp add: py_int_def)
  next
    case (Cons x xs)
    have "x = CHR ''-'' \<or> x = CHR ''+'' \<Longrightarrow> c \<in> set xs"
      using m Cons c by auto
    then show ?thesis
      using Cons m c py_nat_bad[of c xs] py_nat_bad[of c "x # xs"]
      by (auto simp: py_int_def)
  qed
qed

lemma payload_doc_url: "map_of (payload_with_doc_url u) ''doc_url'' = Some u"
  by (simp add: payload_with_doc_url_def PlaceholderTemplates_defaults_def)

lemma py_int_long:
  assumes "\<forall>c\<in>set s. is_digit c" "max_str_digits < length s"
  shows "py_int s = Inl ValueError"
proof -
  obtain c cs where s: "s = c # cs"
    using assms(2) by (cases s) auto
  have "is_digit c"
    using assms(1) s by simp
  then have c: "c \<noteq> CHR ''-''" "c \<noteq> CHR ''+''"
    by (auto simp: is_digit_def)
  have "s \<noteq> []"
    using s by simp
  then have "parse_digits s = Some (map digit_val s)"
    using assms(1) by (rule parse_digits_all)
  then have "py_nat s = Inl ValueError"
    using assms(2) by (simp add: py_nat_def)
  then show ?thesis
    using c s assms(1) py_strip_digits[of s] by (simp add: py_int_def)
qed

lemma py_int_empty: "py_int [] = Inl ValueError"
  by (simp add: py_int_def py_strip_def)

lemma split_on_last_two:
  assumes "pre = [] \<or> last pre = c" "c \<notin> set seg" "c \<notin> set l"
  shows "\<exists>xs. split_on c (pre @ seg @ c # l) = xs @ [seg, l]"
proof (cases "pre = []")
  case True
  have "split_on c (seg @ c # l) = [] @ [seg, l]"
    using assms(2,3) by (simp add: split_on_append split_on_absent)
  then show ?thesis
    using True by auto
next
  case False
  then have p: "butlast pre @ [c] = pre"
    using assms(1) by (metis append_butlast_last_id)
  have "split_on c ((butlast pre @ [c]) @ seg @ c # l) = split_on c (butlast pre) @ [seg, l]"
    using assms(2,3) by (simp add: split_on_append split_on_absent)
  then have "split_on c (pre @ seg @ c # l) = split_on c (butlast pre) @ [seg, l]"
    by (simp only: p)
  then show ?thesis
    by blast
qed

text \<open>
  Claim C4, as the code has it.  Extraction applies \<open>py_int\<close> to the second-last element
  of the document URL split at every slash, the last element being whatever follows the
  last slash (empty when the URL ends in a slash).  A URL without any slash has no
  second-last element, and extraction fails with \<^verbatim>\<open>IndexError\<close>.  Every other URL
  reads \<open>pre seg / l\<close> in exactly one way with no slash in \<open>seg\<close> and \<open>l\<close> and with
  \<open>pre\<close> empty or ending in a slash, and the result is the integer that \<open>seg\<close> denotes:
  the decimal value of \<open>seg\<close> when it is a non-empty string of at most 4300 digits, and
  \<^verbatim>\<open>ValueError\<close> when \<open>seg\<close> is a string of more than 4300 digits, is empty, or holds
  a character that no integer literal contains.
\<close>

theorem get_document_id_split:
  assumes "map_of payload ''doc_url'' = Some doc_url"
  shows "(CHR ''/'' \<notin> set doc_url \<longrightarrow> get_document_id payload = Inl IndexError) \<and>
         (\<forall>pre seg l. doc_url = pre @ seg @ ''/'' @ l \<and> (pre = [] \<or> last pre = CHR ''/'') \<and>
                    CHR ''/'' \<notin> set seg \<and> CHR ''/'' \<notin> set l \<longrightarrow>
            get_document_id payload = py_int seg \<and>
            (seg \<noteq> [] \<and> (\<forall>c\<in>set seg. is_digit c) \<and> length seg \<le> max_str_digits \<longrightarrow>
               get_document_id payload = Inr (int (decimal (map digit_val seg)))) \<and>
            ((\<forall>c\<in>set seg. is_digit c) \<and> max_str_digits < length seg \<longrightarrow>
               get_document_id payload = Inl ValueError) \<and>
            (seg = [] \<or> (\<exists>c\<in>set seg. not_in_int_literal c) \<longrightarrow>
               get_document_id payload = Inl ValueError))"
proof (intro conjI impI allI)
  assume "CHR ''/'' \<notin> set doc_url"
  then show "get_document_id payload = Inl IndexError"
    using assms by (simp add: get_document_id_def getattr_def split_on_absent py_index_singleton)
next
  fix pre seg l
  assume a: "doc_url = pre @ seg @ ''/'' @ l \<and> (pre = [] \<or> last pre = CHR ''/'') \<and>
             CHR ''/'' \<notin> set seg \<and> CHR ''/'' \<notin> set l"
  then obtain xs where "split_on CHR ''/'' doc_url = xs @ [seg, l]"
    using split_on_last_two[of pre "CHR ''/''" seg l] by auto
  then show g: "get_document_id payload = py_int seg"
    using assms by (simp add: get_document_id_def getattr_def py_index_second_last)
  {
    assume "seg \<noteq> [] \<and> (\<forall>c\<in>set seg. is_digit c) \<and> length seg \<le> max_str_digits"
    then show "get_document_id payload = Inr (int (decimal (map digit_val seg)))"
      using g by (simp add: py_int_digits)
  next
    assume "(\<forall>c\<in>set seg. is_digit c) \<and> max_str_digits < length seg"
    then show "get_document_id payload = Inl ValueError"
      using g by (simp add: py_int_long)
  next
    assume "seg = [] \<or> (\<exists>c\<in>set seg. not_in_int_literal c)"
    then show "get_document_id payload = Inl ValueError"
      using g by (auto simp: py_int_bad py_int_empty)
  }
qed

theorem get_document_id_split_witness:
  "get_document_id (payload_with_doc_url ''https://host/api/documents/42/'') = Inr 42 \<and>
   get_document_id (payload_with_doc_url ''42/'') = Inr 42 \<and>
   get_document_id (payload_with_doc_url ''documents'') = Inl IndexError \<and>
   get_document_id (payload_with_doc_url ''https://host/api/documents/abc/'') =
     Inl ValueError \<and>
   get_document_id (payload_with_doc_url (replicate 4301 CHR ''1'' @ ''/'')) = Inl ValueError"
proof (intro conjI)
  have d: "''42'' \<noteq> [] \<and> (\<forall>c\<in>set ''42''. is_digit c) \<and> length ''42'' \<le> max_str_digits"
    by (simp add: is_digit_def max_str_digits_def)
  have v: "int (decimal (map digit_val ''42'')) = 42"
    by (simp add: decimal_def digit_val_def)
  have "''https://host/api/documents/42/'' = ''https://host/api/documents/'' @ ''42'' @ ''/'' @ [] \<and>
      (''https://host/api/documents/'' = [] \<or> last ''https://host/api/documents/'' = CHR ''/'') \<and>
      CHR ''/'' \<notin> set ''42'' \<and> CHR ''/'' \<notin> set []"
    by simp
  then have "get_document_id (payload_with_doc_url ''https://host/api/documents/42/'') =
      Inr (int (decimal (map digit_val ''42'')))"
    using d get_document_id_split [OF payload_doc_url, THEN conjunct2, rule_format,
        of _ "''https://host/api/documents/''" "''42''" "[]"]
    by blast
  then show "get_document_id (payload_with_doc_url ''https://host/api/documents/42/'') = Inr 42"
    by (simp only: v)
  have "''42/'' = [] @ ''42'' @ ''/'' @ [] \<and> ([] = [] \<or> last [] = CHR ''/'') \<and>
      CHR ''/'' \<notin> set ''42'' \<and> CHR ''/'' \<notin> set []"
    by simp
  then have "get_document_id (payload_with_doc_url ''42/'') =
      Inr (int (decimal (map digit_val ''42'')))"
    using d get_document_id_split [OF payload_doc_url, THEN conjunct2, rule_format,
        of _ "[]" "''42''" "[]"]
    by blast
  then show "get_document_id (payload_with_doc_url ''42/'') = Inr 42"
    by (simp only: v)
next
  have "CHR ''/'' \<notin> set ''documents''"
    by simp
  then show "get_document_id (payload_with_doc_url ''documents'') = Inl IndexError"
    by (rule get_document_id_split [OF payload_doc_url, THEN conjunct1, rule_format])
next
  have n: "''abc'' = [] \<or> (\<exists>c\<in>set ''abc''. not_in_int_literal c)"
    by (simp add: not_in_int_literal_def is_digit_def py_isspace_def)
  have "''https://host/api/documents/abc/'' = ''https://host/api/documents/'' @ ''abc'' @ ''/'' @ [] \<and>
      (''https://host/api/documents/'' = [] \<or> last ''https://host/api/documents/'' = CHR ''/'') \<and>
      CHR ''/'' \<notin> set ''abc'' \<and> CHR ''/'' \<notin> set []"
    by simp
  then show "get_document_id (payload_with_doc_url ''https://host/api/documents/abc/'') =
     Inl ValueError"
    using n get_document_id_split [OF payload_doc_url, THEN conjunct2, rule_format,
        of _ "''https://host/api/documents/''" "''abc''" "[]"]
    by blast
next
  let ?seg = "replicate 4301 CHR ''1''"
  have l: "(\<forall>c\<in>set ?seg. is_digit c) \<and> max_str_digits < length ?seg"
    by (simp add: is_digit_def max_str_digits_def)
  have "?seg @ ''/'' = [] @ ?seg @ ''/'' @ [] \<and> ([] = [] \<or> last [] = CHR ''/'') \<and>
      CHR ''/'' \<notin> set ?seg \<and> CHR ''/'' \<notin> set []"
    by simp
  then show "get_document_id (payload_with_doc_url (?seg @ ''/'')) = Inl ValueError"
    using l get_document_id_split [OF payload_doc_url, THEN conjunct2, rule_format,
        of _ "[]" "?seg" "[]"]
    by blast
qed

text \<open>
  A separator character (code point 28) is no white space for \<^verbatim>\<open>int\<close>, and a segment
  that holds one is no integer literal.
\<close>

lemma get_document_id_separator:
  "get_document_id (payload_with_doc_url (''a/'' @ [CHR 0x1C] @ ''42/'')) =
     Inl ValueError"
  by (simp add: payload_with_doc_url_def PlaceholderTemplates_defaults_def
      get_document_id_def getattr_def py_index_def py_int_def py_strip_def py_isspace_def
      py_nat_def is_digit_def)

text \<open>
  The example of claim C4: the second-last element of
  \<^verbatim>\<open>"https://host/api/documents/42/download/".split("/")\<close> is \<^verbatim>\<open>"download"\<close>, and
  extraction raises instead of returning 42.
\<close>

theorem get_document_id_download_url:
  "get_document_id (payload_with_doc_url ''https://host/api/documents/42/download/'') =
     Inl ValueError"
  by (simp add: payload_with_doc_url_def PlaceholderTemplates_defaults_def
      get_document_id_def getattr_def py_index_def py_int_def py_strip_def py_isspace_def
      py_nat_def is_digit_def)

section \<open>Synthesis of the workflows\<close>

lemma validate_fields_empty: "validate_fields ds Map.empty = Inr ds"
  by (induction ds) auto

lemma PlaceholderTemplates_new_empty:
  "PlaceholderTemplates_new Map.empty = Inr PlaceholderTemplates_defaults"
  by (simp add: PlaceholderTemplates_new_def validate_fields_empty)


lemma assign_field_fields [simp]: "map fst (assign_field obj k v) = map fst obj"
  by (induction obj) (auto simp: assign_field_def)




text \<open>An exception of the assignment loop is the library's answer at a name that is no field.\<close>

lemma apply_filters_error:
  "apply_filters lib tr fs = Inl e \<Longrightarrow>
   \<exists>tr' k v rest. k \<in> fst ` set fs \<and> k \<notin> set WorkflowTrigger_fields \<and>
      lib tr' ((k, v) # rest) = Inl e"
proof (induction lib tr fs rule: apply_filters.induct)
  case (1 lib tr)
  then show ?case by simp
next
  case (2 lib tr k v fs)
  show ?case
  proof (cases "k \<in> set WorkflowTrigger_fields")
    case True
    then have "apply_filters lib (assign_field tr k v) fs = Inl e"
      using 2(2) by simp
    from 2(1)[OF True this] show ?thesis
      by auto
  next
    case False
    then have "lib tr ((k, v) # fs) = Inl e"
      using 2(2) by simp
    then show ?thesis
      using False by force
  qed
qed

text \<open>When every key names a field the library is not consulted.\<close>

lemma apply_filters_fields_only:
  "\<forall>k\<in>fst ` set fs. k \<in> set WorkflowTrigger_fields \<Longrightarrow>
   apply_filters lib tr fs = Inr (foldl (\<lambda>tr (k, v). assign_field tr k v) tr fs)"
  by (induction lib tr fs rule: apply_filters.induct) auto

lemma foldl_assign_fields [simp]:
  "map fst (foldl (\<lambda>tr (k, v). assign_field tr k v) tr fs) = map fst tr"
  by (induction fs arbitrary: tr) auto


lemma apply_filters_refused:
  assumes "k \<in> fst ` set fs" "k \<notin> set WorkflowTrigger_fields"
    and "\<forall>k\<in>fst ` set fs. k \<notin> set WorkflowTrigger_fields \<longrightarrow> refuses lib k e"
  shows "apply_filters lib tr fs = Inl e"
  using assms
proof (induction lib tr fs rule: apply_filters.induct)
  case (1 lib tr)
  then show ?case by simp
next
  case (2 lib tr k' v fs)
  show ?case
  proof (cases "k' \<in> set WorkflowTrigger_fields")
    case True
    then have "k \<in> fst ` set fs"
      using 2(2,3) by auto
    moreover have "\<forall>k\<in>fst ` set fs. k \<notin> set WorkflowTrigger_fields \<longrightarrow> refuses lib k e"
      using 2(4) by simp
    ultimately have "apply_filters lib (assign_field tr k' v) fs = Inl e"
      using 2(1)[OF True] 2(3) by blast
    then show ?thesis
      using True by simp
  next
    case False
    then have "refuses lib k' e"
      using 2(4) by simp
    then show ?thesis
      using False by (simp add: refuses_def)
  qed
qed

lemma make_workflow_Inr:
  assumes "make_workflow lib st t h = Inr w"
  shows "\<exists>trigger. apply_filters lib (WorkflowTrigger_new t) (filters h) = Inr trigger \<and>
           w = \<lparr>wf_id = None, wf_name = ''paperless-hooks-'' @ name h,
                wf_order = workflow_start_index st, enabled = True, triggers = [trigger],
                actions = [WorkflowAction_new 4 (Some (webhook_config_for st (name h)))]\<rparr>"
  using assms
  by (auto simp: make_workflow_def Let_def PlaceholderTemplates_new_empty webhook_config_for_def
      split: sum.splits)

lemma make_workflow_error:
  "make_workflow lib st t h = Inl e \<Longrightarrow>
   apply_filters lib (WorkflowTrigger_new t) (filters h) = Inl e"
  by (auto simp: make_workflow_def Let_def PlaceholderTemplates_new_empty split: sum.splits)

lemma make_workflow_ok: "(\<exists>w. make_workflow lib st t h = Inr w) = assignable lib t h"
  by (auto simp: assignable_def make_workflow_def Let_def PlaceholderTemplates_new_empty
      split: sum.splits)

lemma make_workflow_rejects: "\<not> assignable lib t h \<Longrightarrow> \<exists>e. make_workflow lib st t h = Inl e"
  using make_workflow_ok[of lib st t h] by (cases "make_workflow lib st t h") auto


lemma make_workflow_cong:
  "webhook_base_url st' = webhook_base_url st \<Longrightarrow>
   workflow_start_index st' = workflow_start_index st \<Longrightarrow>
   name h' = name h \<Longrightarrow> filters h' = filters h \<Longrightarrow>
   make_workflow lib st' t h' = make_workflow lib st t h"
  unfolding make_workflow_def by (simp only:)

lemma make_workflow_handlers_upd [simp]:
  "make_workflow lib (st\<lparr>event_handlers := f\<rparr>) = make_workflow lib st"
  by (intro ext) (rule make_workflow_cong; simp)

lemma synthesized_handlers_upd [simp]:
  "synthesized lib (st\<lparr>event_handlers := f\<rparr>) = synthesized lib st"
  by (intro ext) (simp add: synthesized_def)

lemma synthesized_same:
  "synthesized lib st t h h' \<Longrightarrow>
   name h' = name h \<and> filters h' = filters h \<and> func h' = func h \<and>
   event_type h' = event_type h \<and> index h' = index h \<and> url h' = Some (''/'' @ name h)"
  by (auto simp: synthesized_def)

lemma synth_handlers_any:
  "synth_handlers lib st t hs = (r, hs', ws) \<Longrightarrow>
   list_all2 (\<lambda>h h'. h' = h \<or> synthesized lib st t h h') hs hs'"
proof (induction hs arbitrary: r hs' ws)
  case Nil
  then show ?case by simp
next
  case (Cons h hs)
  show ?case
  proof (cases "make_workflow lib st t h")
    case (Inl e)
    then show ?thesis
      using Cons.prems by (auto simp: list_all2_same)
  next
    case (Inr w)
    obtain r1 hs1 ws1 where s: "synth_handlers lib st t hs = (r1, hs1, ws1)"
      by (cases "synth_handlers lib st t hs") auto
    show ?thesis
      using Cons.prems Cons.IH[OF s] Inr s by (auto simp: synthesized_def)
  qed
qed

lemma synth_handlers_None:
  "synth_handlers lib st t hs = (None, hs', ws) \<Longrightarrow>
   list_all2 (synthesized lib st t) hs hs' \<and> map Inr ws = map (make_workflow lib st t) hs"
proof (induction hs arbitrary: hs' ws)
  case Nil
  then show ?case by simp
next
  case (Cons h hs)
  show ?case
  proof (cases "make_workflow lib st t h")
    case (Inl e)
    then show ?thesis
      using Cons.prems by auto
  next
    case (Inr w)
    obtain r1 hs1 ws1 where s: "synth_handlers lib st t hs = (r1, hs1, ws1)"
      by (cases "synth_handlers lib st t hs") auto
    then have "r1 = None"
      using Cons.prems Inr by auto
    then show ?thesis
      using Cons.prems Cons.IH[of hs1 ws1] Inr s by (auto simp: synthesized_def)
  qed
qed

lemma synth_handlers_result:
  "(fst (synth_handlers lib st t hs) = None) = (\<forall>h\<in>set hs. assignable lib t h)"
proof (induction hs)
  case Nil
  then show ?case by simp
next
  case (Cons h hs)
  show ?case
  proof (cases "make_workflow lib st t h")
    case (Inl e)
    then have "\<not> assignable lib t h"
      using make_workflow_ok[of lib st t h] by auto
    then show ?thesis
      using Inl by simp
  next
    case (Inr w)
    then have "assignable lib t h"
      using make_workflow_ok[of lib st t h] by auto
    moreover obtain r1 hs1 ws1 where s: "synth_handlers lib st t hs = (r1, hs1, ws1)"
      by (cases "synth_handlers lib st t hs") auto
    ultimately show ?thesis
      using Cons Inr by simp
  qed
qed

lemma synth_handlers_error:
  "fst (synth_handlers lib st t hs) = Some e \<Longrightarrow>
   \<exists>h\<in>set hs. make_workflow lib st t h = Inl e"
proof (induction hs)
  case Nil
  then show ?case by simp
next
  case (Cons h hs)
  show ?case
  proof (cases "make_workflow lib st t h")
    case (Inl e')
    then show ?thesis
      using Cons.prems by simp
  next
    case (Inr w)
    obtain r1 hs1 ws1 where s: "synth_handlers lib st t hs = (r1, hs1, ws1)"
      by (cases "synth_handlers lib st t hs") auto
    then show ?thesis
      using Cons Inr by simp
  qed
qed

lemma synth_all_frame:
  "synth_all lib st ts = (r, st', ws) \<Longrightarrow>
   webhook_base_url st' = webhook_base_url st \<and>
   workflow_start_index st' = workflow_start_index st \<and>
   backend st' = backend st \<and>
   registered_workflows st' = registered_workflows st \<and>
   (\<forall>t. t \<notin> set ts \<longrightarrow> event_handlers st' t = event_handlers st t)"
proof (induction ts arbitrary: st r st' ws)
  case Nil
  then show ?case by simp
next
  case (Cons t ts)
  obtain r1 hs1 ws1 where s: "synth_handlers lib st t (event_handlers st t) = (r1, hs1, ws1)"
    by (cases "synth_handlers lib st t (event_handlers st t)") auto
  let ?st1 = "st\<lparr>event_handlers := (event_handlers st)(t := hs1)\<rparr>"
  show ?case
  proof (cases r1)
    case (Some e)
    then show ?thesis
      using Cons.prems s by auto
  next
    case None
    obtain r2 st2 ws2 where a: "synth_all lib ?st1 ts = (r2, st2, ws2)"
      by (cases "synth_all lib ?st1 ts") auto
    have "st' = st2"
      using Cons.prems s None a by simp
    then show ?thesis
      using Cons.IH[OF a] by simp
  qed
qed

lemma synth_all_any:
  "distinct ts \<Longrightarrow> synth_all lib st ts = (r, st', ws) \<Longrightarrow>
   list_all2 (\<lambda>h h'. h' = h \<or> synthesized lib st t h h') (event_handlers st t) (event_handlers st' t)"
proof (induction ts arbitrary: st r st' ws)
  case Nil
  then show ?case by (simp add: list_all2_same)
next
  case (Cons u ts)
  obtain r1 hs1 ws1 where s: "synth_handlers lib st u (event_handlers st u) = (r1, hs1, ws1)"
    by (cases "synth_handlers lib st u (event_handlers st u)") auto
  let ?st1 = "st\<lparr>event_handlers := (event_handlers st)(u := hs1)\<rparr>"
  note h = synth_handlers_any[OF s]
  show ?case
  proof (cases r1)
    case (Some e)
    then have "st' = ?st1"
      using Cons.prems s by simp
    then show ?thesis
      using h by (simp add: list_all2_same)
  next
    case None
    obtain r2 st2 ws2 where a: "synth_all lib ?st1 ts = (r2, st2, ws2)"
      by (cases "synth_all lib ?st1 ts") auto
    have e: "st' = st2"
      using Cons.prems s None a by simp
    have d: "distinct ts" "u \<notin> set ts"
      using Cons.prems by simp_all
    show ?thesis
    proof (cases "t = u")
      case True
      then have "event_handlers st2 t = hs1"
        using synth_all_frame[OF a] d by simp
      then show ?thesis
        using h True e by simp
    next
      case False
      then show ?thesis
        using Cons.IH[OF d(1) a] e by simp
    qed
  qed
qed

lemma synth_all_None:
  "distinct ts \<Longrightarrow> synth_all lib st ts = (None, st', ws) \<Longrightarrow>
   (\<forall>t\<in>set ts. list_all2 (synthesized lib st t) (event_handlers st t) (event_handlers st' t)) \<and>
   map Inr ws = concat (map (\<lambda>t. map (make_workflow lib st t) (event_handlers st t)) ts)"
proof (induction ts arbitrary: st st' ws)
  case Nil
  then show ?case by simp
next
  case (Cons u ts)
  obtain r1 hs1 ws1 where s: "synth_handlers lib st u (event_handlers st u) = (r1, hs1, ws1)"
    by (cases "synth_handlers lib st u (event_handlers st u)") auto
  let ?st1 = "st\<lparr>event_handlers := (event_handlers st)(u := hs1)\<rparr>"
  have r1: "r1 = None"
    using Cons.prems s by (cases r1) auto
  obtain r2 st2 ws2 where a: "synth_all lib ?st1 ts = (r2, st2, ws2)"
    by (cases "synth_all lib ?st1 ts") auto
  have e: "st' = st2" "r2 = None" "ws = ws1 @ ws2"
    using Cons.prems s r1 a by simp_all
  have d: "distinct ts" "u \<notin> set ts"
    using Cons.prems by simp_all
  note h = synth_handlers_None[OF s[unfolded r1]]
  note ih = Cons.IH[OF d(1) a[unfolded e(2)]]
  have u: "event_handlers st2 u = hs1"
    using synth_all_frame[OF a] d by simp
  have m: "map (\<lambda>t. map (make_workflow lib st t) (event_handlers ?st1 t)) ts =
           map (\<lambda>t. map (make_workflow lib st t) (event_handlers st t)) ts"
    using d by (intro map_cong) auto
  have "list_all2 (synthesized lib st t) (event_handlers st t) (event_handlers st2 t)"
    if "t \<in> set ts" for t
  proof -
    have "t \<noteq> u"
      using that d by auto
    moreover have "list_all2 (synthesized lib ?st1 t) (event_handlers ?st1 t) (event_handlers st2 t)"
      using ih that by blast
    ultimately show ?thesis
      by simp
  qed
  moreover have "map Inr ws = map (make_workflow lib st u) (event_handlers st u) @
      concat (map (\<lambda>t. map (make_workflow lib st t) (event_handlers st t)) ts)"
  proof -
    have "map Inr ws2 = concat (map (\<lambda>t. map (make_workflow lib ?st1 t) (event_handlers ?st1 t)) ts)"
      using ih by blast
    then have "map Inr ws2 =
        concat (map (\<lambda>t. map (make_workflow lib st t) (event_handlers ?st1 t)) ts)"
      by (simp only: make_workflow_handlers_upd)
    then have "map Inr ws2 = concat (map (\<lambda>t. map (make_workflow lib st t) (event_handlers st t)) ts)"
      by (simp only: m)
    moreover have "map Inr ws1 = map (make_workflow lib st u) (event_handlers st u)"
      using h by blast
    ultimately show ?thesis
      by (simp only: e map_append)
  qed
  moreover have "list_all2 (synthesized lib st u) (event_handlers st u) (event_handlers st2 u)"
    using h u by simp
  ultimately show ?case
    by (simp add: e)
qed

lemma synth_all_result:
  "distinct ts \<Longrightarrow>
   (fst (synth_all lib st ts) = None) =
     (\<forall>t\<in>set ts. \<forall>h\<in>set (event_handlers st t). assignable lib t h)"
proof (induction ts arbitrary: st)
  case Nil
  then show ?case by simp
next
  case (Cons u ts)
  obtain r1 hs1 ws1 where s: "synth_handlers lib st u (event_handlers st u) = (r1, hs1, ws1)"
    by (cases "synth_handlers lib st u (event_handlers st u)") auto
  let ?st1 = "st\<lparr>event_handlers := (event_handlers st)(u := hs1)\<rparr>"
  have r1: "(r1 = None) = (\<forall>h\<in>set (event_handlers st u). assignable lib u h)"
    using synth_handlers_result[of lib st u "event_handlers st u"] s by simp
  have d: "distinct ts" "u \<notin> set ts"
    using Cons.prems by simp_all
  have "\<And>t. t \<in> set ts \<Longrightarrow> event_handlers ?st1 t = event_handlers st t"
    using d by auto
  then have ih: "(fst (synth_all lib ?st1 ts) = None) =
     (\<forall>t\<in>set ts. \<forall>h\<in>set (event_handlers st t). assignable lib t h)"
    using Cons.IH[OF d(1), of ?st1] by simp
  obtain r2 st2 ws2 where a: "synth_all lib ?st1 ts = (r2, st2, ws2)"
    by (cases "synth_all lib ?st1 ts") auto
  show ?case
  proof (cases r1)
    case None
    then show ?thesis
      using s r1 ih by (simp add: a)
  next
    case (Some e)
    then show ?thesis
      using r1 by (simp add: s)
  qed
qed

lemma synth_all_error:
  "distinct ts \<Longrightarrow> fst (synth_all lib st ts) = Some e \<Longrightarrow>
   \<exists>t\<in>set ts. \<exists>h\<in>set (event_handlers st t). make_workflow lib st t h = Inl e"
proof (induction ts arbitrary: st)
  case Nil
  then show ?case by simp
next
  case (Cons u ts)
  obtain r1 hs1 ws1 where s: "synth_handlers lib st u (event_handlers st u) = (r1, hs1, ws1)"
    by (cases "synth_handlers lib st u (event_handlers st u)") auto
  let ?st1 = "st\<lparr>event_handlers := (event_handlers st)(u := hs1)\<rparr>"
  have d: "distinct ts" "u \<notin> set ts"
    using Cons.prems by simp_all
  obtain r2 st2 ws2 where a: "synth_all lib ?st1 ts = (r2, st2, ws2)"
    by (cases "synth_all lib ?st1 ts") auto
  show ?case
  proof (cases r1)
    case None
    then have "fst (synth_all lib ?st1 ts) = Some e"
      using Cons.prems(2) s a by simp
    from Cons.IH[OF d(1) this]
    obtain t h where t: "t \<in> set ts" and h: "h \<in> set (event_handlers ?st1 t)"
      and m: "make_workflow lib ?st1 t h = Inl e"
      by blast
    have "t \<noteq> u"
      using t d by auto
    then have "h \<in> set (event_handlers st t)"
      using h by simp
    moreover have "make_workflow lib st t h = Inl e"
      using m by simp
    ultimately show ?thesis
      using t by auto
  next
    case (Some e')
    then have "e' = e"
      using Cons.prems(2) s by simp
    then have "fst (synth_handlers lib st u (event_handlers st u)) = Some e"
      using s Some by simp
    from synth_handlers_error[OF this] show ?thesis
      by auto
  qed
qed

section \<open>The REST client against the server\<close>

lemma served_fields [simp]:
  "store (served rq ok s) = store s"
  "next_id (served rq ok s) = next_id s"
  "page_size (served rq ok s) = page_size s"
  "log (served rq ok s) = log s @ [(rq, ok)]"
  "faults (served rq ok s) = tl (faults s)"
  by (simp_all add: served_def)

lemma workflows_effect:
  "workflows p s = (res, s') \<Longrightarrow>
   s' = served (GetWorkflows p) (\<not> next_fault s) s \<and>
   res = (if next_fault s then Inl PaperlessAPIError else Inr (page_of s p))"
  by (auto simp: workflows_def split: if_splits)

lemma workflows_iter_from_effect:
  "workflows_iter_from p s = (res, s') \<Longrightarrow>
   store s' = store s \<and> next_id s' = next_id s \<and> page_size s' = page_size s \<and>
   (\<exists>es. log s' = log s @ es \<and> es \<noteq> [] \<and>
         map fst es = map GetWorkflows [p..<p + length es] \<and>
         (case res of
            Inr ws \<Rightarrow> \<forall>e\<in>set es. snd e
          | Inl e \<Rightarrow> e = PaperlessAPIError \<and> \<not> snd (last es)))"
proof (induction p s arbitrary: res s' rule: workflows_iter_from.induct)
  case (1 p s)
  obtain r1 s1 where w: "workflows p s = (r1, s1)"
    by (cases "workflows p s") auto
  note e = workflows_effect[OF w]
  show ?case
  proof (cases "next_fault s")
    case True
    then have "res = Inl PaperlessAPIError" "s' = s1"
      using "1.prems" w e by (simp_all add: workflows_iter_from.simps[of p s])
    then show ?thesis
      using e True by (auto intro!: exI[of _ "[(GetWorkflows p, False)]"])
  next
    case False
    obtain results has_next where pg: "page_of s p = (results, has_next)"
      by (cases "page_of s p") auto
    have r1: "r1 = Inr (results, has_next)"
      using e False pg by simp
    show ?thesis
    proof (cases has_next)
      case False
      then have "res = Inr results" "s' = s1"
        using "1.prems" w r1 by (simp_all add: workflows_iter_from.simps[of p s])
      then show ?thesis
        using e \<open>\<not> next_fault s\<close> by (auto intro!: exI[of _ "[(GetWorkflows p, True)]"])
    next
      case True
      obtain r2 s2 where it: "workflows_iter_from (p + 1) s1 = (r2, s2)"
        by (cases "workflows_iter_from (p + 1) s1") auto
      have ih: "store s2 = store s1 \<and> next_id s2 = next_id s1 \<and> page_size s2 = page_size s1 \<and>
         (\<exists>es. log s2 = log s1 @ es \<and> es \<noteq> [] \<and>
         map fst es = map GetWorkflows [p + 1..<p + 1 + length es] \<and>
         (case r2 of
            Inr ws \<Rightarrow> \<forall>e\<in>set es. snd e
          | Inl e \<Rightarrow> e = PaperlessAPIError \<and> \<not> snd (last es)))"
        using "1.IH"[OF w[symmetric] r1 refl True it] .
      then obtain es where es: "log s2 = log s1 @ es" "es \<noteq> []"
        "map fst es = map GetWorkflows [p + 1..<p + 1 + length es]"
        "case r2 of Inr ws \<Rightarrow> \<forall>e\<in>set es. snd e
          | Inl e \<Rightarrow> e = PaperlessAPIError \<and> \<not> snd (last es)"
        by blast
      have res: "s' = s2" "res = (case r2 of Inl e \<Rightarrow> Inl e | Inr rest \<Rightarrow> Inr (results @ rest))"
        using "1.prems" w r1 True it
        by (auto simp: workflows_iter_from.simps[of p s] split: sum.splits)
      let ?es = "(GetWorkflows p, True) # es"
      have a: "log s' = log s @ ?es"
        using es(1) e \<open>\<not> next_fault s\<close> res(1) by simp
      have "[p..<p + length ?es] = p # [p + 1..<p + 1 + length es]"
        by (subst upt_rec) simp
      then have b: "map fst ?es = map GetWorkflows [p..<p + length ?es]"
        using es(3) by simp
      have c: "case res of Inr ws \<Rightarrow> \<forall>e\<in>set ?es. snd e
          | Inl e \<Rightarrow> e = PaperlessAPIError \<and> \<not> snd (last ?es)"
        using es(2,4) res(2) by (cases r2) auto
      have "\<exists>es. log s' = log s @ es \<and> es \<noteq> [] \<and>
         map fst es = map GetWorkflows [p..<p + length es] \<and>
         (case res of
            Inr ws \<Rightarrow> \<forall>e\<in>set es. snd e
          | Inl e \<Rightarrow> e = PaperlessAPIError \<and> \<not> snd (last es))"
        using a b c by (intro exI[of _ ?es]) simp
      then show ?thesis
        using ih e res(1) by simp
    qed
  qed
qed

lemma workflows_iter_from_result:
  "workflows_iter_from p s = (Inr ws, s') \<Longrightarrow> 0 < p \<Longrightarrow>
   ws = (if page_size s = 0 then store s else drop ((p - 1) * page_size s) (store s))"
proof (induction p s arbitrary: ws s' rule: workflows_iter_from.induct)
  case (1 p s)
  obtain r1 s1 where w: "workflows p s = (r1, s1)"
    by (cases "workflows p s") auto
  note e = workflows_effect[OF w]
  have nf: "\<not> next_fault s"
    using "1.prems" w e by (auto simp: workflows_iter_from.simps[of p s])
  obtain results has_next where pg: "page_of s p = (results, has_next)"
    by (cases "page_of s p") auto
  have r1: "r1 = Inr (results, has_next)"
    using e nf pg by simp
  show ?case
  proof (cases has_next)
    case False
    then have ws: "ws = results"
      using "1.prems" w r1 by (simp add: workflows_iter_from.simps[of p s])
    show ?thesis
    proof (cases "page_size s = 0")
      case True
      then show ?thesis
        using pg ws by (simp add: page_of_def)
    next
      case nz: False
      have "p * page_size s = page_size s + (p - 1) * page_size s"
        using \<open>0 < p\<close> by (cases p) simp_all
      moreover have "\<not> p * page_size s < length (store s)"
        using pg False nz by (simp add: page_of_def)
      ultimately have "length (drop ((p - 1) * page_size s) (store s)) \<le> page_size s"
        by simp
      then have "take (page_size s) (drop ((p - 1) * page_size s) (store s)) =
          drop ((p - 1) * page_size s) (store s)"
        by (rule take_all)
      then show ?thesis
        using pg ws nz by (simp add: page_of_def)
    qed
  next
    case True
    obtain r2 s2 where it: "workflows_iter_from (p + 1) s1 = (r2, s2)"
      by (cases "workflows_iter_from (p + 1) s1") auto
    then obtain rest where rest: "r2 = Inr rest" "ws = results @ rest"
      using "1.prems" w r1 True by (auto simp: workflows_iter_from.simps[of p s] split: sum.splits)
    have ps: "page_size s \<noteq> 0" and results: "results = take (page_size s) (drop ((p - 1) * page_size s) (store s))"
      using pg True by (auto simp: page_of_def split: if_splits)
    have "rest = (if page_size s1 = 0 then store s1 else drop ((p + 1 - 1) * page_size s1) (store s1))"
      using "1.IH"[OF w[symmetric] r1 refl True it[unfolded rest(1)]] by simp
    then have "rest = drop (p * page_size s) (store s)"
      using e ps by simp
    moreover have "p * page_size s = page_size s + (p - 1) * page_size s"
      using \<open>0 < p\<close> by (cases p) simp_all
    ultimately have "rest = drop (page_size s) (drop ((p - 1) * page_size s) (store s))"
      by (simp only: drop_drop)
    then show ?thesis
      using ps results rest(2) by (simp only: append_take_drop_id if_False)
  qed
qed

lemma workflows_iter_result: "workflows_iter s = (Inr ws, s') \<Longrightarrow> ws = store s"
  using workflows_iter_from_result[of 1 s ws s'] by (simp add: workflows_iter_def)

lemma workflows_iter_effect:
  "workflows_iter s = (res, s') \<Longrightarrow>
   store s' = store s \<and> next_id s' = next_id s \<and> page_size s' = page_size s \<and>
   (\<exists>es. log s' = log s @ es \<and> es \<noteq> [] \<and>
         map fst es = map GetWorkflows [1..<1 + length es] \<and>
         (case res of
            Inr ws \<Rightarrow> \<forall>e\<in>set es. snd e
          | Inl e \<Rightarrow> e = PaperlessAPIError \<and> \<not> snd (last es)))"
  unfolding workflows_iter_def by (rule workflows_iter_from_effect)

lemma create_workflow_effect:
  "create_workflow w s = (res, s') \<Longrightarrow>
   log s' = log s @ [(PostWorkflow (w\<lparr>wf_id := None\<rparr>), \<not> next_fault s)] \<and>
   page_size s' = page_size s \<and>
   (if next_fault s
    then res = Inl PaperlessAPIError \<and> store s' = store s \<and> next_id s' = next_id s
    else res = Inr (w\<lparr>wf_id := Some (next_id s)\<rparr>) \<and>
         store s' = store s @ [w\<lparr>wf_id := Some (next_id s)\<rparr>] \<and>
         next_id s' = next_id s + 1)"
  by (auto simp: create_workflow_def Let_def split: if_splits)

text \<open>
  The loop of \<^verbatim>\<open>_register_workflows\<close>: one POST for every workflow whose name was
  not listed, whatever the outcome of the POSTs before it; the workflows returned are
  those of the POSTs that succeeded, and they are what the store gained.
\<close>

lemma create_missing_effect:
  "create_missing existing ws s = (reg, s') \<Longrightarrow>
   page_size s' = page_size s \<and> store s' = store s @ reg \<and>
   (\<exists>es. log s' = log s @ es \<and>
         map fst es =
           map (\<lambda>w. PostWorkflow (w\<lparr>wf_id := None\<rparr>))
             (filter (\<lambda>w. wf_name w \<notin> set existing) ws) \<and>
         map wf_name reg = map wf_name (creation_calls (filter snd es)))"
proof (induction ws arbitrary: s reg s')
  case Nil
  then show ?case by (simp add: creation_calls_def)
next
  case (Cons w ws)
  show ?case
  proof (cases "wf_name w \<in> set existing")
    case True
    then show ?thesis
      using Cons.prems Cons.IH[of s reg s'] by simp
  next
    case False
    obtain r1 s1 where c: "create_workflow w s = (r1, s1)"
      by (cases "create_workflow w s") auto
    note e = create_workflow_effect[OF c]
    obtain reg1 s2 where m: "create_missing existing ws s1 = (reg1, s2)"
      by (cases "create_missing existing ws s1") auto
    from Cons.IH[OF m] obtain es where es: "page_size s2 = page_size s1"
      "store s2 = store s1 @ reg1" "log s2 = log s1 @ es"
      "map fst es = map (\<lambda>w. PostWorkflow (w\<lparr>wf_id := None\<rparr>))
             (filter (\<lambda>w. wf_name w \<notin> set existing) ws)"
      "map wf_name reg1 = map wf_name (creation_calls (filter snd es))"
      by blast
    let ?e = "(PostWorkflow (w\<lparr>wf_id := None\<rparr>), \<not> next_fault s)"
    have s': "s' = s2"
      using Cons.prems False c m by (auto split: sum.splits)
    have reg: "reg = (if next_fault s then reg1 else w\<lparr>wf_id := Some (next_id s)\<rparr> # reg1)"
      using Cons.prems False c m e by (auto split: sum.splits if_splits)
    have a: "log s' = log s @ ?e # es"
      using es(3) e s' by simp
    have b: "map fst (?e # es) = map (\<lambda>w. PostWorkflow (w\<lparr>wf_id := None\<rparr>))
             (filter (\<lambda>w. wf_name w \<notin> set existing) (w # ws))"
      using es(4) False by simp
    have d: "map wf_name reg = map wf_name (creation_calls (filter snd (?e # es)))"
      using es(5) reg by (simp add: creation_calls_def)
    have "store s' = store s @ reg"
      using es(2) e s' reg by (simp split: if_splits)
    moreover have "page_size s' = page_size s"
      using es(1) e s' by simp
    ultimately show ?thesis
      using a b d by blast
  qed
qed

lemma creation_calls_append [simp]:
  "creation_calls (xs @ ys) = creation_calls xs @ creation_calls ys"
  by (simp add: creation_calls_def)

lemma creation_calls_listing:
  "map fst es = map GetWorkflows ps \<Longrightarrow> creation_calls es = []"
proof (induction es arbitrary: ps)
  case Nil
  then show ?case by (simp add: creation_calls_def)
next
  case (Cons e es)
  then obtain q qs where "ps = q # qs" "fst e = GetWorkflows q" "map fst es = map GetWorkflows qs"
    by (cases ps) auto
  then show ?case
    using Cons.IH[of qs] by (simp add: creation_calls_def)
qed

lemma creation_calls_posts:
  "map fst es = map PostWorkflow ws \<Longrightarrow> creation_calls es = ws"
proof (induction es arbitrary: ws)
  case Nil
  then show ?case by (simp add: creation_calls_def)
next
  case (Cons e es)
  then obtain q qs where "ws = q # qs" "fst e = PostWorkflow q" "map fst es = map PostWorkflow qs"
    by (cases ws) auto
  then show ?case
    using Cons.IH[of qs] by (simp add: creation_calls_def)
qed

lemma new_log_append: "log s' = log s @ es \<Longrightarrow> new_log s s' = es"
  by (simp add: new_log_def)

section \<open>Routes\<close>

lemma json_handler_cong:
  "func h' = func h \<Longrightarrow> event_type h' = event_type h \<Longrightarrow> json_handler h' = json_handler h"
  by (intro ext) (simp add: json_handler_def EventHandler_call_def split: sum.splits)

lemma add_routes_None:
  "add_routes hs None = (None, b) \<Longrightarrow> b = None"
  by (induction hs) (auto split: option.splits if_splits)

lemma add_routes_Some:
  "\<forall>h\<in>set hs. url h = Some (''/'' @ name h) \<Longrightarrow>
   add_routes hs (Some rs) =
     (None, Some (rs @ map (\<lambda>h. (''/'' @ name h, json_handler h)) hs))"
  by (induction hs arbitrary: rs) (auto simp: add_json_endpoint_def)

lemma add_routes_no_backend:
  "\<forall>h\<in>set hs. url h = Some (''/'' @ name h) \<Longrightarrow>
   add_routes hs None = (if hs = [] then (None, None) else (Some AttributeError, None))"
  by (cases hs) auto

section \<open>Inbound dispatch\<close>

lemma validate_fields_strings:
  "\<forall>k\<in>fst ` set ds. \<forall>v. kw k = Some v \<longrightarrow> (\<exists>s. v = JStr s) \<Longrightarrow>
   validate_fields ds kw =
     Inr (map (\<lambda>(k, d). (k, case kw k of Some (JStr s) \<Rightarrow> s | _ \<Rightarrow> d)) ds)"
proof (induction ds)
  case Nil
  then show ?case by simp
next
  case (Cons a ds)
  obtain k d where a: "a = (k, d)"
    by (cases a)
  have ih: "validate_fields ds kw =
     Inr (map (\<lambda>(k, d). (k, case kw k of Some (JStr s) \<Rightarrow> s | _ \<Rightarrow> d)) ds)"
    using Cons by simp
  show ?case
  proof (cases "kw k")
    case None
    then show ?thesis by (simp add: a ih)
  next
    case (Some v)
    then obtain s where "v = JStr s"
      using Cons.prems a by auto
    then show ?thesis
      using Some by (simp add: a ih)
  qed
qed

lemma validate_fields_rejects:
  "k \<in> fst ` set ds \<Longrightarrow> kw k = Some v \<Longrightarrow> \<forall>s. v \<noteq> JStr s \<Longrightarrow>
   validate_fields ds kw = Inl ValidationError"
proof (induction ds)
  case Nil
  then show ?case by simp
next
  case (Cons a ds)
  obtain k' d where a: "a = (k', d)"
    by (cases a)
  have bad: "(case kw k of None \<Rightarrow> Inr d | Some (JStr s) \<Rightarrow> Inr s | Some _ \<Rightarrow> Inl ValidationError)
      = Inl ValidationError" for d
    using Cons.prems(2,3) by (cases v) auto
  show ?case
  proof (cases "k' = k")
    case True
    then show ?thesis
      by (simp add: a bad)
  next
    case False
    then have "validate_fields ds kw = Inl ValidationError"
      using Cons a by auto
    then show ?thesis
      by (auto simp: a split: sum.splits option.splits json.splits)
  qed
qed

text \<open>
  Claim C8, as the code has it.  A body that gives only strings under the field names is
  decoded into the placeholder record (keys that name no field ignored, missing fields at
  their template markers), and the binding is exactly one call of the handler's callback
  on the context of the handler's trigger type: a document-added event, a
  document-updated event, or the decoded record itself for consumption-started and
  scheduled.  A body that gives anything but a string under a field name is rejected with
  a validation error, and the callback is not called.
\<close>

theorem json_handler_dispatch:
  "(string_valued json_data \<longrightarrow>
      PlaceholderTemplates_new json_data = Inr (placeholder_record json_data) \<and>
      json_handler h json_data u =
        fn_call (func h)
          (case event_type h of
             DOCUMENT_ADDED \<Rightarrow> DocumentAddedEvent (placeholder_record json_data)
           | DOCUMENT_UPDATED \<Rightarrow> DocumentUpdatedEvent (placeholder_record json_data)
           | CONSUMPTION_STARTED \<Rightarrow> RawPayload (placeholder_record json_data)
           | SCHEDULED \<Rightarrow> RawPayload (placeholder_record json_data)) u) \<and>
   (\<not> string_valued json_data \<longrightarrow> json_handler h json_data u = (Some ValidationError, u))"
proof (intro conjI impI)
  assume s: "string_valued json_data"
  then show d: "PlaceholderTemplates_new json_data = Inr (placeholder_record json_data)"
    unfolding string_valued_def PlaceholderTemplates_new_def placeholder_record_def
    by (rule validate_fields_strings)
  show "json_handler h json_data u =
        fn_call (func h)
          (case event_type h of
             DOCUMENT_ADDED \<Rightarrow> DocumentAddedEvent (placeholder_record json_data)
           | DOCUMENT_UPDATED \<Rightarrow> DocumentUpdatedEvent (placeholder_record json_data)
           | CONSUMPTION_STARTED \<Rightarrow> RawPayload (placeholder_record json_data)
           | SCHEDULED \<Rightarrow> RawPayload (placeholder_record json_data)) u"
    by (simp add: json_handler_def d EventHandler_call_def event_for_def)
next
  assume "\<not> string_valued json_data"
  then obtain k v where "k \<in> fst ` set PlaceholderTemplates_defaults" "json_data k = Some v"
    "\<forall>s. v \<noteq> JStr s"
    unfolding string_valued_def by blast
  then have "PlaceholderTemplates_new json_data = Inl ValidationError"
    unfolding PlaceholderTemplates_new_def by (rule validate_fields_rejects)
  then show "json_handler h json_data u = (Some ValidationError, u)"
    by (simp add: json_handler_def)
qed

lemma string_valued_example:
  "string_valued [''doc_url'' \<mapsto> JStr ''https://host/api/documents/7/'', ''extra'' \<mapsto> JNull]"
  by (simp add: string_valued_def PlaceholderTemplates_defaults_def)

lemma not_string_valued_example: "\<not> string_valued [''doc_url'' \<mapsto> JNull]"
  by (simp add: string_valued_def PlaceholderTemplates_defaults_def)

theorem json_handler_dispatch_witness:
  "json_handler (handler_for (recording_callback ''on_doc'') ''on_doc'' DOCUMENT_ADDED [])
     [''doc_url'' \<mapsto> JStr ''https://host/api/documents/7/'', ''extra'' \<mapsto> JNull] [] =
     (None, [DocumentAddedEvent (payload_with_doc_url ''https://host/api/documents/7/'')]) \<and>
   json_handler (handler_for (recording_callback ''on_doc'') ''on_doc'' DOCUMENT_ADDED [])
     [''doc_url'' \<mapsto> JNull] [] = (Some ValidationError, [])"
proof
  let ?h = "handler_for (recording_callback ''on_doc'') ''on_doc'' DOCUMENT_ADDED []"
  let ?b = "[''doc_url'' \<mapsto> JStr ''https://host/api/documents/7/'', ''extra'' \<mapsto> JNull]"
  have r: "placeholder_record ?b = payload_with_doc_url ''https://host/api/documents/7/''"
    by (simp add: placeholder_record_def payload_with_doc_url_def PlaceholderTemplates_defaults_def)
  have "json_handler ?h ?b [] =
        fn_call (func ?h)
          (case event_type ?h of
             DOCUMENT_ADDED \<Rightarrow> DocumentAddedEvent (placeholder_record ?b)
           | DOCUMENT_UPDATED \<Rightarrow> DocumentUpdatedEvent (placeholder_record ?b)
           | CONSUMPTION_STARTED \<Rightarrow> RawPayload (placeholder_record ?b)
           | SCHEDULED \<Rightarrow> RawPayload (placeholder_record ?b)) []"
    using json_handler_dispatch [of ?b ?h "[]"] string_valued_example by blast
  then show "json_handler ?h ?b [] =
     (None, [DocumentAddedEvent (payload_with_doc_url ''https://host/api/documents/7/'')])"
    by (simp add: r handler_for_def recording_callback_def)
next
  show "json_handler (handler_for (recording_callback ''on_doc'') ''on_doc'' DOCUMENT_ADDED [])
     [''doc_url'' \<mapsto> JNull] [] = (Some ValidationError, [])"
    using json_handler_dispatch [of "[''doc_url'' \<mapsto> JNull]" _ "[]"] not_string_valued_example
    by blast
qed

text \<open>
  Claim C8 as stated speaks of every inbound body: on the body \<^verbatim>\<open>{"doc_url": null}\<close>
  the binding raises and the callback, which would have recorded its call, is not called.
\<close>

theorem json_handler_null_doc_url:
  "json_handler (handler_for (recording_callback ''on_doc'') ''on_doc'' DOCUMENT_ADDED [])
     [''doc_url'' \<mapsto> JNull] [] = (Some ValidationError, [])"
  by (simp add: json_handler_def PlaceholderTemplates_new_def PlaceholderTemplates_defaults_def)

text \<open>
  Claim C9.  When the callback raises on the context built for a delivery, the binding
  raises the same exception (and leaves the user's state as the callback left it): nothing
  in the binding catches it.
\<close>

theorem callback_exception_propagates:
  "PlaceholderTemplates_new json_data = Inr tmpl \<Longrightarrow>
   fn_call (func h) (event_for (event_type h) tmpl) u = (Some e, u') \<Longrightarrow>
   json_handler h json_data u = (Some e, u')"
  by (simp add: json_handler_def EventHandler_call_def)

theorem callback_exception_propagates_witness:
  "json_handler (handler_for (raising_callback ''on_doc'') ''on_doc'' SCHEDULED []) Map.empty [] =
     (Some (UserException ''boom''), [RawPayload PlaceholderTemplates_defaults])"
  by (rule callback_exception_propagates [OF PlaceholderTemplates_new_empty])
     (simp add: handler_for_def raising_callback_def event_for_def)

section \<open>The runs of \<^verbatim>\<open>init\<close>\<close>

lemma distinct_trigger_types: "distinct trigger_types"
  by (simp add: trigger_types_def)

lemma trigger_types_all: "t \<in> set trigger_types"
  by (cases t) (simp_all add: trigger_types_def)

lemma set_all_handlers: "set (all_handlers st) = (\<Union>t. set (event_handlers st t))"
  using trigger_types_all by (auto simp: all_handlers_def)

lemma list_all2_concat_map:
  "(\<And>t. t \<in> set ts \<Longrightarrow> list_all2 R (f t) (g t)) \<Longrightarrow>
   list_all2 R (concat (map f ts)) (concat (map g ts))"
  by (induction ts) (auto intro: list_all2_appendI)

lemma list_all2_Inr_concat:
  "map Inr ws = concat (map (\<lambda>t. map (g t) (f t)) ts) \<Longrightarrow>
   list_all2 (\<lambda>h w. \<exists>t. g t h = Inr w) (concat (map f ts)) ws"
proof (induction ts arbitrary: ws)
  case Nil
  then show ?case by simp
next
  case (Cons t ts)
  from Cons.prems obtain us vs where ws: "ws = us @ vs" "map Inr us = map (g t) (f t)"
    "map Inr vs = concat (map (\<lambda>t. map (g t) (f t)) ts)"
    by (auto simp: map_eq_append_conv)
  have "list_all2 (\<lambda>h w. g t h = Inr w) (f t) us"
    using ws(2) by (auto simp: list_all2_conv_all_nth dest: map_eq_imp_length_eq
        intro: nth_map[THEN trans, symmetric, of _ _ Inr] )
       (metis length_map nth_map)
  then have "list_all2 (\<lambda>h w. \<exists>t. g t h = Inr w) (f t) us"
    by (rule list_all2_mono) auto
  then show ?case
    using Cons.IH[OF ws(3)] ws(1) by (auto intro: list_all2_appendI)
qed


lemma synth_all_assignable:
  "(fst (synth_all lib st trigger_types) = None) = all_assignable lib st"
proof -
  have "(\<forall>t\<in>set trigger_types. \<forall>h\<in>set (event_handlers st t). assignable lib t h) =
        all_assignable lib st"
    unfolding all_assignable_def using trigger_types_all by blast
  then show ?thesis
    using synth_all_result[OF distinct_trigger_types, of lib st] by simp
qed

lemma init_elim:
  assumes "init lib st s = (r, st', s')"
  obtains
    (rejected) e t h where "\<not> all_assignable lib st" "r = Some e"
      "h \<in> set (event_handlers st t)" "make_workflow lib st t h = Inl e"
      "s' = s" "st' = fst (snd (synth_all lib st trigger_types))"
  | (no_handlers) st1 where "synth_all lib st trigger_types = (None, st1, [])" "s' = s"
      "setup_routes st1 = (r, st')"
  | (listing_failed) st1 ws e where "synth_all lib st trigger_types = (None, st1, ws)" "ws \<noteq> []"
      "workflows_iter s = (Inl e, s')" "r = Some e" "st' = st1"
  | (reconciled) st1 ws remote sa reg where "synth_all lib st trigger_types = (None, st1, ws)"
      "ws \<noteq> []" "workflows_iter s = (Inr remote, sa)"
      "create_missing (map wf_name remote) ws sa = (reg, s')"
      "setup_routes (st1\<lparr>registered_workflows := registered_workflows st1 @ reg\<rparr>) = (r, st')"
proof -
  obtain r0 st1 ws where sy: "synth_all lib st trigger_types = (r0, st1, ws)"
    by (cases "synth_all lib st trigger_types") auto
  have r0: "(r0 = None) = all_assignable lib st"
    using synth_all_assignable[of lib st] sy by simp
  show ?thesis
  proof (cases r0)
    case (Some e)
    then have "fst (synth_all lib st trigger_types) = Some e"
      using sy by simp
    from synth_all_error[OF distinct_trigger_types this]
    obtain t h where h: "h \<in> set (event_handlers st t)" "make_workflow lib st t h = Inl e"
      by blast
    have "r = Some e" "s' = s" "st' = st1"
      using assms sy Some by (simp_all add: init_def)
    moreover have "\<not> all_assignable lib st"
      using r0 Some by simp
    ultimately show ?thesis
      using h sy rejected by simp
  next
    case None
    note n = None
    show ?thesis
    proof (cases "ws = []")
      case True
      then have "s' = s" "setup_routes st1 = (r, st')"
        using assms sy n by (auto simp: init_def split: prod.splits)
      then show ?thesis
        using sy n True no_handlers by simp
    next
      case False
      obtain res sa where it: "workflows_iter s = (res, sa)"
        by (cases "workflows_iter s") auto
      show ?thesis
      proof (cases res)
        case (Inl e)
        then have "r = Some e" "s' = sa" "st' = st1"
          using assms sy n False it by (simp_all add: init_def register_workflows_def)
        then show ?thesis
          using sy n False it Inl listing_failed by simp
      next
        case (Inr remote)
        obtain reg sb where cm: "create_missing (map wf_name remote) ws sa = (reg, sb)"
          by (cases "create_missing (map wf_name remote) ws sa") auto
        have "s' = sb"
          "setup_routes (st1\<lparr>registered_workflows := registered_workflows st1 @ reg\<rparr>) = (r, st')"
          using assms sy n False it Inr cm
          by (auto simp: init_def register_workflows_def split: prod.splits)
        then show ?thesis
          using sy n False it Inr cm reconciled by simp
      qed
    qed
  qed
qed

text \<open>
  When every filter key names a field, a run of \<^verbatim>\<open>init\<close> does not depend on the
  library.
\<close>

lemma make_workflow_library:
  "fields_only h \<Longrightarrow> make_workflow lib st t h = make_workflow lib' st t h"
  by (simp add: make_workflow_def fields_only_def apply_filters_fields_only)

lemma synth_handlers_library:
  "\<forall>h\<in>set hs. fields_only h \<Longrightarrow> synth_handlers lib st t hs = synth_handlers lib' st t hs"
  by (induction hs) (simp_all add: make_workflow_library[of _ lib _ _ lib'] split: sum.splits)

lemma synth_all_library:
  "distinct ts \<Longrightarrow> \<forall>t\<in>set ts. \<forall>h\<in>set (event_handlers st t). fields_only h \<Longrightarrow>
   synth_all lib st ts = synth_all lib' st ts"
proof (induction ts arbitrary: st)
  case Nil
  then show ?case by simp
next
  case (Cons u ts)
  have h: "synth_handlers lib st u (event_handlers st u) =
           synth_handlers lib' st u (event_handlers st u)"
    using Cons.prems(2) by (intro synth_handlers_library) simp
  obtain r1 hs1 ws1 where s: "synth_handlers lib' st u (event_handlers st u) = (r1, hs1, ws1)"
    by (cases "synth_handlers lib' st u (event_handlers st u)") auto
  let ?st1 = "st\<lparr>event_handlers := (event_handlers st)(u := hs1)\<rparr>"
  have d: "distinct ts" "u \<notin> set ts"
    using Cons.prems(1) by simp_all
  have "\<forall>t\<in>set ts. \<forall>h\<in>set (event_handlers ?st1 t). fields_only h"
    using Cons.prems(2) d by auto
  from Cons.IH[OF d(1) this] show ?case
    by (simp add: h s split: option.splits)
qed

lemma init_library:
  assumes "\<forall>h\<in>set (all_handlers st). fields_only h"
  shows "init lib st s = init lib' st s"
proof -
  have "\<forall>t\<in>set trigger_types. \<forall>h\<in>set (event_handlers st t). fields_only h"
    using assms by (auto simp: set_all_handlers)
  then have "synth_all lib st trigger_types = synth_all lib' st trigger_types"
    by (rule synth_all_library[OF distinct_trigger_types])
  then show ?thesis
    by (simp add: init_def)
qed

lemma synth_all_handlers:
  assumes "synth_all lib st trigger_types = (None, st1, ws)"
  shows "list_all2 (\<lambda>h h'. \<exists>t. synthesized lib st t h h') (all_handlers st) (all_handlers st1)"
    and "list_all2 (\<lambda>h w. \<exists>t. make_workflow lib st t h = Inr w) (all_handlers st) ws"
proof -
  note n = synth_all_None[OF distinct_trigger_types assms]
  have "list_all2 (\<lambda>h h'. \<exists>t. synthesized lib st t h h') (event_handlers st t) (event_handlers st1 t)"
    for t
  proof -
    have "list_all2 (synthesized lib st t) (event_handlers st t) (event_handlers st1 t)"
      using n trigger_types_all[of t] by blast
    then show ?thesis
      by (rule list_all2_mono) blast
  qed
  then show "list_all2 (\<lambda>h h'. \<exists>t. synthesized lib st t h h') (all_handlers st) (all_handlers st1)"
    unfolding all_handlers_def by (intro list_all2_concat_map)
  show "list_all2 (\<lambda>h w. \<exists>t. make_workflow lib st t h = Inr w) (all_handlers st) ws"
    unfolding all_handlers_def using n by (intro list_all2_Inr_concat) simp
qed

lemma synth_all_any_handlers:
  assumes "synth_all lib st trigger_types = (r, st1, ws)"
  shows "list_all2 (\<lambda>h h'. h' = h \<or> (\<exists>t. synthesized lib st t h h'))
           (all_handlers st) (all_handlers st1)"
proof -
  have "list_all2 (\<lambda>h h'. h' = h \<or> (\<exists>t. synthesized lib st t h h'))
          (event_handlers st t) (event_handlers st1 t)" for t
    by (rule list_all2_mono[OF synth_all_any[OF distinct_trigger_types assms, of t]]) blast
  then show ?thesis
    unfolding all_handlers_def by (intro list_all2_concat_map)
qed

lemma synth_all_names:
  assumes "synth_all lib st trigger_types = (None, st1, ws)"
  shows "map wf_name ws = map (\<lambda>h. ''paperless-hooks-'' @ name h) (all_handlers st)"
proof -
  have "list_all2 (\<lambda>h w. wf_name w = ''paperless-hooks-'' @ name h) (all_handlers st) ws"
    using synth_all_handlers(2)[OF assms]
    by (rule list_all2_mono) (auto dest: make_workflow_Inr)
  then show ?thesis
    by (induction rule: list_all2_induct) auto
qed

lemma synth_all_urls:
  assumes "synth_all lib st trigger_types = (None, st1, ws)"
  shows "\<forall>h\<in>set (all_handlers st1). url h = Some (''/'' @ name h)"
proof -
  have "list_all2 (\<lambda>h h'. url h' = Some (''/'' @ name h')) (all_handlers st) (all_handlers st1)"
    using synth_all_handlers(1)[OF assms]
    by (rule list_all2_mono) (auto dest: synthesized_same)
  then show ?thesis
    by (induction rule: list_all2_induct) auto
qed

lemma synth_all_routes:
  assumes "synth_all lib st trigger_types = (r, st1, ws)"
  shows "map (\<lambda>h. (''/'' @ name h, json_handler h)) (all_handlers st1) =
         map (\<lambda>h. (''/'' @ name h, json_handler h)) (all_handlers st)"
    and "map name (all_handlers st1) = map name (all_handlers st)"
    and "map filters (all_handlers st1) = map filters (all_handlers st)"
proof -
  have a: "list_all2 (\<lambda>h h'. name h' = name h \<and> filters h' = filters h \<and>
      json_handler h' = json_handler h) (all_handlers st) (all_handlers st1)"
    using synth_all_any_handlers[OF assms]
    by (rule list_all2_mono) (auto dest!: synthesized_same intro: json_handler_cong)
  from a show "map (\<lambda>h. (''/'' @ name h, json_handler h)) (all_handlers st1) =
         map (\<lambda>h. (''/'' @ name h, json_handler h)) (all_handlers st)"
    by (induction rule: list_all2_induct) auto
  from a show "map name (all_handlers st1) = map name (all_handlers st)"
    by (induction rule: list_all2_induct) auto
  from a show "map filters (all_handlers st1) = map filters (all_handlers st)"
    by (induction rule: list_all2_induct) auto
qed

lemma all_handlers_upd [simp]:
  "all_handlers (st\<lparr>registered_workflows := x\<rparr>) = all_handlers st"
  "all_handlers (st\<lparr>backend := b\<rparr>) = all_handlers st"
  by (simp_all add: all_handlers_def)

lemma setup_routes_effect:
  assumes "\<forall>h\<in>set (all_handlers st). url h = Some (''/'' @ name h)"
    and "setup_routes st = (r, st')"
  shows "st' = st\<lparr>backend := backend st'\<rparr>"
    and "r = (if backend st = None \<and> all_handlers st \<noteq> [] then Some AttributeError else None)"
    and "r = None \<Longrightarrow> routes_of (backend st') =
           routes_of (backend st) @ map (\<lambda>h. (''/'' @ name h, json_handler h)) (all_handlers st)"
    and "r \<noteq> None \<Longrightarrow> backend st' = None"
proof -
  obtain b where ar: "add_routes (all_handlers st) (backend st) = (r, b)" and st': "st' = st\<lparr>backend := b\<rparr>"
    using assms(2) by (auto simp: setup_routes_def split: prod.splits)
  show "st' = st\<lparr>backend := backend st'\<rparr>"
    using st' by simp
  have c: "r = (if backend st = None \<and> all_handlers st \<noteq> [] then Some AttributeError else None) \<and>
     (r = None \<longrightarrow> routes_of b =
           routes_of (backend st) @ map (\<lambda>h. (''/'' @ name h, json_handler h)) (all_handlers st)) \<and>
     (r \<noteq> None \<longrightarrow> b = None)"
  proof (cases "backend st")
    case None
    then show ?thesis
      using ar add_routes_no_backend[OF assms(1)] by (auto simp: routes_of_def split: if_splits)
  next
    case (Some rs)
    then show ?thesis
      using ar add_routes_Some[OF assms(1), of rs] by (auto simp: routes_of_def)
  qed
  then show "r = (if backend st = None \<and> all_handlers st \<noteq> [] then Some AttributeError else None)"
    by blast
  show "r = None \<Longrightarrow> routes_of (backend st') =
           routes_of (backend st) @ map (\<lambda>h. (''/'' @ name h, json_handler h)) (all_handlers st)"
    using c st' by simp
  show "r \<noteq> None \<Longrightarrow> backend st' = None"
    using c st' by simp
qed






lemma second_run_routes:
  "fst second_run = None \<and>
   map fst (routes_of (backend (fst (snd second_run)))) =
     [''/on_added'', ''/on_updated'', ''/on_added'', ''/on_updated'']"
  by code_simp

section \<open>The synthesized workflows\<close>

lemma registered_new:
  "PaperlessHooks_new p_url api_key hook_url be start_index = Inr st \<Longrightarrow> registered st"
  by (auto simp: PaperlessHooks_new_def registered_def split: if_splits)

lemma EventHandler_new_named:
  "fn_name f = Some n \<Longrightarrow>
   EventHandler_new f t fs = Inr (handler_for f n t (case fs of None \<Rightarrow> [] | Some m \<Rightarrow> m))"
  by (simp add: EventHandler_new_def handler_for_def)

lemma EventHandler_new_nameless: "fn_name f = None \<Longrightarrow> EventHandler_new f t fs = Inl AttributeError"
  by (simp add: EventHandler_new_def)

lemma decorators_named:
  assumes "fn_name f = Some n"
  shows "consumption_started fs f st =
           Inr (add_event_handler (handler_for f n CONSUMPTION_STARTED fs) st)"
    and "document_added fo f st =
           Inr (add_event_handler
             (handler_for f n DOCUMENT_ADDED (case fo of None \<Rightarrow> [] | Some m \<Rightarrow> m)) st)"
    and "document_updated fo f st =
           Inr (add_event_handler
             (handler_for f n DOCUMENT_UPDATED (case fo of None \<Rightarrow> [] | Some m \<Rightarrow> m)) st)"
    and "scheduled fo f st =
           Inr (add_event_handler
             (handler_for f n SCHEDULED (case fo of None \<Rightarrow> [] | Some m \<Rightarrow> m)) st)"
  using assms
  by (simp_all add: consumption_started_def document_added_def document_updated_def
      scheduled_def EventHandler_new_named)

lemma decorators_nameless:
  assumes "fn_name f = None"
  shows "consumption_started fs f st = Inl AttributeError"
    and "document_added fo f st = Inl AttributeError"
    and "document_updated fo f st = Inl AttributeError"
    and "scheduled fo f st = Inl AttributeError"
  using assms
  by (simp_all add: consumption_started_def document_added_def document_updated_def
      scheduled_def EventHandler_new_nameless)

lemma all_handlers_add:
  "set (all_handlers (add_event_handler h st)) = insert h (set (all_handlers st))"
  by (auto simp: set_all_handlers add_event_handler_def split: if_splits)



lemma init_event_handlers:
  assumes "init lib st s = (r, st', s')"
  shows "event_handlers st' = event_handlers (fst (snd (synth_all lib st trigger_types)))"
  using assms
proof (cases rule: init_elim)
  case rejected
  then show ?thesis by simp
next
  case (no_handlers st1)
  show ?thesis
    using setup_routes_effect(1)[OF synth_all_urls[OF no_handlers(1)] no_handlers(3)]
      no_handlers(1)
    by (metis (no_types, lifting) PaperlessHooks.select_convs(6) PaperlessHooks.surjective
        PaperlessHooks.update_convs(5) fst_conv snd_conv)
next
  case (listing_failed st1 ws e)
  then show ?thesis by simp
next
  case (reconciled st1 ws remote sa reg)
  let ?st = "st1\<lparr>registered_workflows := registered_workflows st1 @ reg\<rparr>"
  have "\<forall>h\<in>set (all_handlers ?st). url h = Some (''/'' @ name h)"
    using synth_all_urls[OF reconciled(1)] by simp
  from setup_routes_effect(1)[OF this reconciled(5)]
  have "event_handlers st' = event_handlers ?st"
    by (metis (no_types, lifting) PaperlessHooks.select_convs(6) PaperlessHooks.surjective
        PaperlessHooks.update_convs(5))
  then show ?thesis
    using reconciled(1) by simp
qed

lemma init_synthesized:
  assumes "init lib st s = (r, st', s')"
  shows "list_all2 (\<lambda>h h'. h' = h \<or> synthesized lib st t h h')
           (event_handlers st t) (event_handlers st' t)"
proof -
  obtain r0 st1 ws where sy: "synth_all lib st trigger_types = (r0, st1, ws)"
    by (cases "synth_all lib st trigger_types") auto
  show ?thesis
    using synth_all_any[OF distinct_trigger_types sy, of t] init_event_handlers[OF assms] sy
    by simp
qed







section \<open>What a run of \<^verbatim>\<open>init\<close> asks of the server\<close>

lemma register_log:
  assumes "workflows_iter s = (Inr remote, sa)"
    and "create_missing (map wf_name remote) ws sa = (reg, s')"
  obtains pages posts where "log s' = log s @ pages @ posts" "pages \<noteq> []"
    "map fst pages = map GetWorkflows [1..<1 + length pages]" "\<forall>e\<in>set pages. snd e"
    "map fst posts = map (\<lambda>w. PostWorkflow (w\<lparr>wf_id := None\<rparr>))
       (filter (\<lambda>w. wf_name w \<notin> wf_name ` set (store s)) ws)"
    "store s' = store s @ reg"
    "map wf_name reg = map wf_name (creation_calls (filter snd posts))"
proof -
  have remote: "remote = store s"
    using assms(1) by (rule workflows_iter_result)
  from workflows_iter_effect[OF assms(1)] obtain pages where p: "store sa = store s"
    "log sa = log s @ pages" "pages \<noteq> []"
    "map fst pages = map GetWorkflows [1..<1 + length pages]" "\<forall>e\<in>set pages. snd e"
    by auto
  from create_missing_effect[OF assms(2)] obtain posts where q: "store s' = store sa @ reg"
    "log s' = log sa @ posts"
    "map fst posts = map (\<lambda>w. PostWorkflow (w\<lparr>wf_id := None\<rparr>))
       (filter (\<lambda>w. wf_name w \<notin> set (map wf_name remote)) ws)"
    "map wf_name reg = map wf_name (creation_calls (filter snd posts))"
    by blast
  show ?thesis
    using p q remote by (intro that[of pages posts]) simp_all
qed

lemma listing_calls_posts:
  "map fst es = map PostWorkflow ws \<Longrightarrow> listing_calls es = []"
proof (induction es arbitrary: ws)
  case Nil
  then show ?case by (simp add: listing_calls_def)
next
  case (Cons e es)
  then obtain q qs where "ws = q # qs" "fst e = PostWorkflow q" "map fst es = map PostWorkflow qs"
    by (cases ws) auto
  then show ?case
    using Cons.IH[of qs] by (simp add: listing_calls_def)
qed

lemma list_all2_lengthD': "list_all2 P xs ys \<Longrightarrow> (xs = []) = (ys = [])"
  by (auto dest: list_all2_lengthD)

lemma init_run_elim:
  assumes "init lib st s = (r, st', s')"
  obtains
    (rejected) e t h where "\<not> all_assignable lib st" "r = Some e"
      "s' = s" "backend st' = backend st"
      "h \<in> set (event_handlers st t)" "make_workflow lib st t h = Inl e"
  | (no_handlers) "all_handlers st = []" "r = None" "s' = s"
  | (listing_failed) pages where "all_assignable lib st"
      "all_handlers st \<noteq> []" "r = Some PaperlessAPIError"
      "log s' = log s @ pages" "pages \<noteq> []"
      "map fst pages = map GetWorkflows [1..<1 + length pages]" "\<not> snd (last pages)"
      "store s' = store s" "\<exists>e. fst (workflows_iter s) = Inl e"
  | (reconciled) pages posts reg where "all_assignable lib st"
      "all_handlers st \<noteq> []"
      "r = (if backend st = None then Some AttributeError else None)"
      "log s' = log s @ pages @ posts" "pages \<noteq> []"
      "map fst pages = map GetWorkflows [1..<1 + length pages]" "\<forall>e\<in>set pages. snd e"
      "map wf_name (creation_calls posts) =
         filter (\<lambda>n. n \<notin> wf_name ` set (store s))
           (map (\<lambda>h. ''paperless-hooks-'' @ name h) (all_handlers st))"
      "listing_calls posts = []"
      "store s' = store s @ reg"
      "map wf_name reg = map wf_name (creation_calls (filter snd posts))"
      "\<exists>remote. fst (workflows_iter s) = Inr remote"
      "map fst posts = map PostWorkflow (creation_calls posts)"
  using assms
proof (cases rule: init_elim)
  case (rejected e t h)
  have "backend st' = backend st"
    using synth_all_frame[of lib st trigger_types] rejected(6)
    by (cases "synth_all lib st trigger_types") auto
  then show ?thesis
    using rejected that(1) by simp
next
  case (no_handlers st1)
  have e: "all_handlers st = []"
    using synth_all_handlers(2)[OF no_handlers(1)] by simp
  then have "all_handlers st1 = []"
    using synth_all_handlers(1)[OF no_handlers(1)] by simp
  then have "r = None"
    using setup_routes_effect(2)[OF synth_all_urls[OF no_handlers(1)] no_handlers(3)] by simp
  then show ?thesis
    using e no_handlers(2) that(2) by simp
next
  case (listing_failed st1 ws e)
  have acc: "all_assignable lib st"
    using synth_all_assignable[of lib st] listing_failed(1) by simp
  have ne: "all_handlers st \<noteq> []"
    using synth_all_handlers(2)[OF listing_failed(1)] listing_failed(2)
    by (auto dest: list_all2_lengthD)
  from workflows_iter_effect[OF listing_failed(3)] obtain pages where
    "store s' = store s" "log s' = log s @ pages" "pages \<noteq> []"
    "map fst pages = map GetWorkflows [1..<1 + length pages]" "e = PaperlessAPIError"
    "\<not> snd (last pages)"
    by auto
  then show ?thesis
    using acc ne listing_failed(3,4) by (intro that(3)[of pages]) auto
next
  case (reconciled st1 ws remote sa reg)
  have acc: "all_assignable lib st"
    using synth_all_assignable[of lib st] reconciled(1) by simp
  have ne: "all_handlers st \<noteq> []"
    using synth_all_handlers(2)[OF reconciled(1)] reconciled(2)
    by (auto dest: list_all2_lengthD)
  have ne1: "all_handlers st1 \<noteq> []"
    using synth_all_handlers(1)[OF reconciled(1)] ne by (auto dest: list_all2_lengthD)
  let ?st = "st1\<lparr>registered_workflows := registered_workflows st1 @ reg\<rparr>"
  have u: "\<forall>h\<in>set (all_handlers ?st). url h = Some (''/'' @ name h)"
    using synth_all_urls[OF reconciled(1)] by simp
  have r: "r = (if backend st = None then Some AttributeError else None)"
    using setup_routes_effect(2)[OF u reconciled(5)] ne1 synth_all_frame[OF reconciled(1)]
    by simp
  from register_log[OF reconciled(3,4)] obtain pages posts where
    l: "log s' = log s @ pages @ posts" "pages \<noteq> []"
    "map fst pages = map GetWorkflows [1..<1 + length pages]" "\<forall>e\<in>set pages. snd e"
    "map fst posts = map (\<lambda>w. PostWorkflow (w\<lparr>wf_id := None\<rparr>))
       (filter (\<lambda>w. wf_name w \<notin> wf_name ` set (store s)) ws)"
    "store s' = store s @ reg"
    "map wf_name reg = map wf_name (creation_calls (filter snd posts))"
    by blast
  have mp: "map fst posts = map PostWorkflow (map (\<lambda>w. w\<lparr>wf_id := None\<rparr>)
       (filter (\<lambda>w. wf_name w \<notin> wf_name ` set (store s)) ws))"
    using l(5) by simp
  then have cc: "creation_calls posts = map (\<lambda>w. w\<lparr>wf_id := None\<rparr>)
       (filter (\<lambda>w. wf_name w \<notin> wf_name ` set (store s)) ws)"
    by (rule creation_calls_posts)
  have "map wf_name (creation_calls posts) =
      filter (\<lambda>n. n \<notin> wf_name ` set (store s)) (map wf_name ws)"
    by (simp add: cc filter_map comp_def)
  then have names: "map wf_name (creation_calls posts) =
         filter (\<lambda>n. n \<notin> wf_name ` set (store s))
           (map (\<lambda>h. ''paperless-hooks-'' @ name h) (all_handlers st))"
    by (simp only: synth_all_names[OF reconciled(1)])
  have lc: "listing_calls posts = []"
    using mp by (rule listing_calls_posts)
  have only: "map fst posts = map PostWorkflow (creation_calls posts)"
    using mp by (simp only: cc)
  show ?thesis
    using acc ne r l(1,2,3,4,6,7) names lc reconciled(3) only
    by (intro that(4)[of pages posts reg]) auto
qed

section \<open>Registration and the errors of \<^verbatim>\<open>init\<close>\<close>

lemma new_log_self [simp]: "new_log s s = []"
  by (simp add: new_log_def)

lemma init_rejects:
  assumes "h \<in> set (all_handlers st)" "\<not> fields_only h"
    and "\<forall>h\<in>set (all_handlers st). \<forall>k\<in>fst ` set (filters h).
           k \<notin> set WorkflowTrigger_fields \<longrightarrow> refuses lib k e"
  shows "fst (init lib st s) = Some e" "snd (snd (init lib st s)) = s"
    "backend (fst (snd (init lib st s))) = backend st"
proof -
  obtain r st' s' where i: "init lib st s = (r, st', s')"
    by (cases "init lib st s") auto
  obtain k where k: "k \<in> fst ` set (filters h)" "k \<notin> set WorkflowTrigger_fields"
    using assms(2) by (auto simp: fields_only_def)
  obtain t where t: "h \<in> set (event_handlers st t)"
    using assms(1) by (auto simp: set_all_handlers)
  have "\<forall>k\<in>fst ` set (filters h). k \<notin> set WorkflowTrigger_fields \<longrightarrow> refuses lib k e"
    using assms(1,3) by blast
  then have "apply_filters lib (WorkflowTrigger_new t) (filters h) = Inl e"
    by (rule apply_filters_refused[OF k])
  then have "\<not> assignable lib t h"
    by (simp add: assignable_def)
  then have n: "\<not> all_assignable lib st"
    using t by (auto simp: all_assignable_def)
  have "r = Some e \<and> s' = s \<and> backend st' = backend st"
    using i
  proof (cases rule: init_run_elim)
    case (rejected e' t' h')
    from apply_filters_error[OF make_workflow_error[OF rejected(6)]]
    obtain tr' k' v rest where k': "k' \<in> fst ` set (filters h')"
      "k' \<notin> set WorkflowTrigger_fields" "lib tr' ((k', v) # rest) = Inl e'"
      by blast
    have "h' \<in> set (all_handlers st)"
      using rejected(5) by (auto simp: set_all_handlers)
    then have "refuses lib k' e"
      using assms(3) k'(1,2) by blast
    then have "e' = e"
      using k'(3) by (simp add: refuses_def)
    then show ?thesis
      using rejected by simp
  next
    case no_handlers
    then show ?thesis using assms(1) by simp
  next
    case (listing_failed pages)
    then show ?thesis using n by simp
  next
    case (reconciled pages posts reg)
    then show ?thesis using n by simp
  qed
  then show "fst (init lib st s) = Some e" "snd (snd (init lib st s)) = s"
    "backend (fst (snd (init lib st s))) = backend st"
    by (simp_all add: i)
qed

text \<open>
  Claim C3, as the code has it.  No registration looks at the filters.  A decorator fails
  only when the callback has no name, with \<^verbatim>\<open>AttributeError\<close>; otherwise it files a new
  handler under its trigger type, carrying the filters mapping as given (\<^verbatim>\<open>None\<close> as
  the empty mapping), whatever its keys.  A key that is no field of the trigger is met
  only when \<^verbatim>\<open>init\<close> assigns the filters to the trigger, and what happens then is the
  validation library's answer to that name: when some registered filter key is no field
  and the library answers every such key with one and the same exception, \<^verbatim>\<open>init\<close>
  raises that exception, before any request to the server and without registering a
  route.
\<close>

theorem registration_unvalidated:
  "(fn_name f = None \<longrightarrow>
      consumption_started fs f st = Inl AttributeError \<and>
      document_added fo f st = Inl AttributeError \<and>
      document_updated fo f st = Inl AttributeError \<and>
      scheduled fo f st = Inl AttributeError) \<and>
   (\<forall>n. fn_name f = Some n \<longrightarrow>
      consumption_started fs f st =
        Inr (add_event_handler (handler_for f n CONSUMPTION_STARTED fs) st) \<and>
      document_added fo f st =
        Inr (add_event_handler
          (handler_for f n DOCUMENT_ADDED (case fo of None \<Rightarrow> [] | Some m \<Rightarrow> m)) st) \<and>
      document_updated fo f st =
        Inr (add_event_handler
          (handler_for f n DOCUMENT_UPDATED (case fo of None \<Rightarrow> [] | Some m \<Rightarrow> m)) st) \<and>
      scheduled fo f st =
        Inr (add_event_handler
          (handler_for f n SCHEDULED (case fo of None \<Rightarrow> [] | Some m \<Rightarrow> m)) st)) \<and>
   event_handlers (add_event_handler h st) =
     (event_handlers st)(event_type h := event_handlers st (event_type h) @ [h]) \<and>
   ((\<exists>h\<in>set (all_handlers st). \<not> fields_only h) \<and>
    (\<forall>h\<in>set (all_handlers st). \<forall>k\<in>fst ` set (filters h).
       k \<notin> set WorkflowTrigger_fields \<longrightarrow> refuses lib k e) \<longrightarrow>
      fst (init lib st s) = Some e \<and> snd (snd (init lib st s)) = s \<and>
      backend (fst (snd (init lib st s))) = backend st)"
proof (intro conjI impI allI)
  assume "fn_name f = None"
  then show "consumption_started fs f st = Inl AttributeError"
    "document_added fo f st = Inl AttributeError"
    "document_updated fo f st = Inl AttributeError"
    "scheduled fo f st = Inl AttributeError"
    by (simp_all add: decorators_nameless)
next
  fix n
  assume "fn_name f = Some n"
  then show "consumption_started fs f st =
        Inr (add_event_handler (handler_for f n CONSUMPTION_STARTED fs) st)"
    "document_added fo f st =
        Inr (add_event_handler
          (handler_for f n DOCUMENT_ADDED (case fo of None \<Rightarrow> [] | Some m \<Rightarrow> m)) st)"
    "document_updated fo f st =
        Inr (add_event_handler
          (handler_for f n DOCUMENT_UPDATED (case fo of None \<Rightarrow> [] | Some m \<Rightarrow> m)) st)"
    "scheduled fo f st =
        Inr (add_event_handler
          (handler_for f n SCHEDULED (case fo of None \<Rightarrow> [] | Some m \<Rightarrow> m)) st)"
    by (simp_all add: decorators_named)
next
  show "event_handlers (add_event_handler h st) =
     (event_handlers st)(event_type h := event_handlers st (event_type h) @ [h])"
    by (simp add: add_event_handler_def)
next
  assume a: "(\<exists>h\<in>set (all_handlers st). \<not> fields_only h) \<and>
    (\<forall>h\<in>set (all_handlers st). \<forall>k\<in>fst ` set (filters h).
       k \<notin> set WorkflowTrigger_fields \<longrightarrow> refuses lib k e)"
  then obtain h where h: "h \<in> set (all_handlers st)" "\<not> fields_only h"
    by blast
  have q: "\<forall>h\<in>set (all_handlers st). \<forall>k\<in>fst ` set (filters h).
       k \<notin> set WorkflowTrigger_fields \<longrightarrow> refuses lib k e"
    using a by blast
  note r = init_rejects[OF h q]
  show "fst (init lib st s) = Some e" by (rule r)
  show "snd (snd (init lib st s)) = s" by (rule r)
  show "backend (fst (snd (init lib st s))) = backend st" by (rule r)
qed

lemma handler_for_sel:
  "event_type (handler_for f n t fs) = t"
  "name (handler_for f n t fs) = n"
  "func (handler_for f n t fs) = f"
  "filters (handler_for f n t fs) = fs"
  "workflow (handler_for f n t fs) = None"
  "url (handler_for f n t fs) = None"
  by (simp_all add: handler_for_def)

lemma recording_callback_name [simp]: "fn_name (recording_callback n) = Some n"
  by (simp add: recording_callback_def)

lemma registry_after_named:
  "fn_name f = Some n \<Longrightarrow>
   registry_after (document_added fo f) st =
     add_event_handler
       (handler_for f n DOCUMENT_ADDED (case fo of None \<Rightarrow> [] | Some m \<Rightarrow> m)) st"
  "fn_name f = Some n \<Longrightarrow>
   registry_after (document_updated fo f) st =
     add_event_handler
       (handler_for f n DOCUMENT_UPDATED (case fo of None \<Rightarrow> [] | Some m \<Rightarrow> m)) st"
  by (simp_all add: registry_after_def decorators_named)

lemma all_handlers_unknown_filter:
  "all_handlers registry_unknown_filter =
     [handler_for (recording_callback ''on_doc'') ''on_doc'' DOCUMENT_ADDED
        [(''no_such_filter'', PInt 1)]]"
  by (simp add: registry_unknown_filter_def registry_after_named add_event_handler_def
      registry0_def all_handlers_def trigger_types_def handler_for_sel)

lemma no_such_filter: "''no_such_filter'' \<notin> set WorkflowTrigger_fields"
  by (simp add: WorkflowTrigger_fields_def WorkflowTrigger_new_def)

lemma no_such_field_refuses: "refuses no_such_field k ValueError"
  by (simp add: refuses_def no_such_field_def)

text \<open>
  The run on the registry with the unknown filter key, for every library that answers
  that key with an exception.
\<close>

lemma init_unknown_filter:
  assumes "refuses lib ''no_such_filter'' e"
  shows "fst (init lib registry_unknown_filter server0) = Some e"
    and "snd (snd (init lib registry_unknown_filter server0)) = server0"
proof -
  let ?h = "handler_for (recording_callback ''on_doc'') ''on_doc'' DOCUMENT_ADDED
        [(''no_such_filter'', PInt 1)]"
  have h: "?h \<in> set (all_handlers registry_unknown_filter)" "\<not> fields_only ?h"
    by (simp_all add: all_handlers_unknown_filter fields_only_def handler_for_sel no_such_filter)
  have q: "\<forall>h\<in>set (all_handlers registry_unknown_filter). \<forall>k\<in>fst ` set (filters h).
       k \<notin> set WorkflowTrigger_fields \<longrightarrow> refuses lib k e"
    using assms by (simp add: all_handlers_unknown_filter handler_for_sel)
  note r = init_rejects[OF h q, of server0]
  show "fst (init lib registry_unknown_filter server0) = Some e"
    by (rule r)
  show "snd (snd (init lib registry_unknown_filter server0)) = server0"
    by (rule r)
qed

theorem registration_unvalidated_witness:
  "document_added (Some [(''no_such_filter'', PInt 1)]) nameless_callback registry0 =
     Inl AttributeError \<and>
   document_added (Some [(''no_such_filter'', PInt 1)]) (recording_callback ''on_doc'') registry0 =
     Inr registry_unknown_filter \<and>
   map filters (all_handlers registry_unknown_filter) = [[(''no_such_filter'', PInt 1)]] \<and>
   fst (init no_such_field registry_unknown_filter server0) = Some ValueError \<and>
   snd (snd (init no_such_field registry_unknown_filter server0)) = server0 \<and>
   backend (fst (snd (init no_such_field registry_unknown_filter server0))) = Some []"
proof -
  have u: "\<exists>h\<in>set (all_handlers registry_unknown_filter). \<not> fields_only h"
    by (simp add: all_handlers_unknown_filter fields_only_def handler_for_sel no_such_filter)
  have q: "\<forall>h\<in>set (all_handlers registry_unknown_filter). \<forall>k\<in>fst ` set (filters h).
       k \<notin> set WorkflowTrigger_fields \<longrightarrow> refuses no_such_field k ValueError"
    by (simp add: no_such_field_refuses)
  have b: "backend registry_unknown_filter = Some []"
    by (simp add: registry_unknown_filter_def registry_after_named add_event_handler_def
        registry0_def)
  have n: "fn_name nameless_callback = None"
    by (simp add: nameless_callback_def)
  have r: "registry_unknown_filter =
      add_event_handler
        (handler_for (recording_callback ''on_doc'') ''on_doc'' DOCUMENT_ADDED
           [(''no_such_filter'', PInt 1)]) registry0"
    by (simp add: registry_unknown_filter_def registry_after_named)
  have f: "map filters (all_handlers registry_unknown_filter) = [[(''no_such_filter'', PInt 1)]]"
    by (simp add: all_handlers_unknown_filter handler_for_sel)
  note t1 = registration_unvalidated
      [where f = nameless_callback and st = registry0
         and fo = "Some [(''no_such_filter'', PInt 1)]"]
  note t2 = registration_unvalidated
      [where f = "recording_callback ''on_doc''" and st = registry0
         and fo = "Some [(''no_such_filter'', PInt 1)]"]
  note t3 = registration_unvalidated
      [where st = registry_unknown_filter and lib = no_such_field and e = ValueError
         and s = server0]
  have "document_added (Some [(''no_such_filter'', PInt 1)]) nameless_callback registry0 =
     Inl AttributeError"
    using t1 n by blast
  moreover have "document_added (Some [(''no_such_filter'', PInt 1)])
      (recording_callback ''on_doc'') registry0 = Inr registry_unknown_filter"
    using t2 recording_callback_name[of "''on_doc''"] unfolding r by simp
  moreover have "fst (init no_such_field registry_unknown_filter server0) = Some ValueError \<and>
      snd (snd (init no_such_field registry_unknown_filter server0)) = server0 \<and>
      backend (fst (snd (init no_such_field registry_unknown_filter server0))) =
        backend registry_unknown_filter"
    using t3 u q by blast
  ultimately show ?thesis
    using f b by simp
qed

text \<open>
  Claim C3 as stated wants the registration itself to fail: the decorator returns with
  the handler filed, its unknown filter key included.
\<close>

theorem registration_accepts_unknown_filter:
  "''no_such_filter'' \<notin> set WorkflowTrigger_fields \<and>
   map_sum id (\<lambda>st. map filters (all_handlers st))
     (document_added (Some [(''no_such_filter'', PInt 1)]) (recording_callback ''on_doc'')
        registry0) =
     Inr [[(''no_such_filter'', PInt 1)]]"
  by code_simp

lemma creation_calls_new_log:
  assumes "log s' = log s @ pages @ posts" "map fst pages = map GetWorkflows ps"
  shows "creation_calls (new_log s s') = creation_calls posts"
  using assms by (simp add: new_log_def creation_calls_listing)


lemma all_handlers_registry2:
  "all_handlers registry2 =
     [handler_for (recording_callback ''on_added'') ''on_added'' DOCUMENT_ADDED [],
      handler_for (recording_callback ''on_updated'') ''on_updated'' DOCUMENT_UPDATED []]"
  by (simp add: registry2_def registry_after_named add_event_handler_def
      registry0_def all_handlers_def trigger_types_def handler_for_sel)



section \<open>One listing, then one creation per missing workflow\<close>







section \<open>Running \<^verbatim>\<open>init\<close> twice\<close>

lemma creation_calls_filter: "creation_calls es = [] \<Longrightarrow> creation_calls (filter P es) = []"
  by (induction es) (auto simp: creation_calls_def)

lemma init_all_handlers:
  assumes "init lib st s = (r, st', s')"
  shows "map name (all_handlers st') = map name (all_handlers st)"
    and "map filters (all_handlers st') = map filters (all_handlers st)"
proof -
  obtain r0 st1 ws where sy: "synth_all lib st trigger_types = (r0, st1, ws)"
    by (cases "synth_all lib st trigger_types") auto
  have "all_handlers st' = all_handlers st1"
    using init_event_handlers[OF assms] sy by (simp add: all_handlers_def)
  then show "map name (all_handlers st') = map name (all_handlers st)"
    and "map filters (all_handlers st') = map filters (all_handlers st)"
    using synth_all_routes(2,3)[OF sy] by simp_all
qed

lemma list_all2_Ball:
  "list_all2 (\<lambda>x y. P x = Q y) xs ys \<Longrightarrow> (\<forall>x\<in>set xs. P x) = (\<forall>y\<in>set ys. Q y)"
  by (induction rule: list_all2_induct) auto

lemma init_accepted_again:
  assumes "init lib st s = (r, st', s')"
  shows "all_assignable lib st' = all_assignable lib st"
proof -
  have "(\<forall>h\<in>set (event_handlers st t). assignable lib t h) =
        (\<forall>h\<in>set (event_handlers st' t). assignable lib t h)" for t
  proof -
    have "list_all2 (\<lambda>h h'. assignable lib t h = assignable lib t h')
            (event_handlers st t) (event_handlers st' t)"
      using init_synthesized[OF assms, of t]
      by (rule list_all2_mono) (auto simp: assignable_def dest!: synthesized_same)
    then show ?thesis
      by (rule list_all2_Ball)
  qed
  then show ?thesis
    by (simp add: all_assignable_def)
qed

lemma init_no_creation:
  assumes "init lib st s = (r, st', s')"
    and "\<forall>h\<in>set (all_handlers st). ''paperless-hooks-'' @ name h \<in> wf_name ` set (store s)"
  shows "creation_calls (new_log s s') = []" and "store s' = store s"
proof -
  from assms(1) have "creation_calls (new_log s s') = [] \<and> store s' = store s"
  proof (cases rule: init_run_elim)
    case (rejected e t h)
    then show ?thesis by (simp add: creation_calls_def)
  next
    case no_handlers
    then show ?thesis by (simp add: creation_calls_def)
  next
    case (listing_failed pages)
    have "creation_calls pages = []"
      using listing_failed(6) by (rule creation_calls_listing)
    then show ?thesis
      using listing_failed(4,8) by (simp add: new_log_def)
  next
    case (reconciled pages posts reg)
    have "filter (\<lambda>n. n \<notin> wf_name ` set (store s))
           (map (\<lambda>h. ''paperless-hooks-'' @ name h) (all_handlers st)) = []"
      using assms(2) by (auto simp: filter_empty_conv)
    then have c: "creation_calls posts = []"
      using reconciled(8) by simp
    then have "reg = []"
      using reconciled(11) by (simp add: creation_calls_filter)
    moreover have "creation_calls (new_log s s') = creation_calls posts"
      using reconciled(4,6) by (rule creation_calls_new_log)
    ultimately show ?thesis
      using c reconciled(10) by simp
  qed
  then show "creation_calls (new_log s s') = []" and "store s' = store s"
    by simp_all
qed

lemma init_listing_only:
  assumes "init lib st s = (r, st', s')"
    and "\<forall>h\<in>set (all_handlers st). ''paperless-hooks-'' @ name h \<in> wf_name ` set (store s)"
  shows "\<exists>ps. map fst (new_log s s') = map GetWorkflows ps"
  using assms(1)
proof (cases rule: init_run_elim)
  case (rejected e t h)
  then show ?thesis by simp
next
  case no_handlers
  then show ?thesis by simp
next
  case (listing_failed pages)
  have "new_log s s' = pages"
    using listing_failed(4) by (simp add: new_log_def)
  then show ?thesis
    using listing_failed(6) by blast
next
  case (reconciled pages posts reg)
  have "creation_calls posts = []"
    using init_no_creation(1)[OF assms] creation_calls_new_log[OF reconciled(4,6)] by simp
  then have "posts = []"
    using reconciled(13) by simp
  then have "new_log s s' = pages"
    using reconciled(4) by (simp add: new_log_def)
  then show ?thesis
    using reconciled(6) by blast
qed

lemma init_all_present:
  assumes "init lib st s = (r, st', s')" and "\<forall>e\<in>set (new_log s s'). snd e"
    and "all_assignable lib st"
  shows "\<forall>h\<in>set (all_handlers st). ''paperless-hooks-'' @ name h \<in> wf_name ` set (store s')"
  using assms(1)
proof (cases rule: init_run_elim)
  case (rejected e t h)
  then show ?thesis using assms(3) by simp
next
  case no_handlers
  then show ?thesis by simp
next
  case (listing_failed pages)
  have "last pages \<in> set (new_log s s')"
    using listing_failed(4,5) by (simp add: new_log_def)
  then show ?thesis
    using assms(2) listing_failed(7) by blast
next
  case (reconciled pages posts reg)
  have "filter snd posts = posts"
    using assms(2) reconciled(4) by (simp add: new_log_def)
  then have reg: "map wf_name reg =
      filter (\<lambda>n. n \<notin> wf_name ` set (store s))
           (map (\<lambda>h. ''paperless-hooks-'' @ name h) (all_handlers st))"
    using reconciled(8,11) by simp
  show ?thesis
  proof
    fix h
    assume h: "h \<in> set (all_handlers st)"
    show "''paperless-hooks-'' @ name h \<in> wf_name ` set (store s')"
    proof (cases "''paperless-hooks-'' @ name h \<in> wf_name ` set (store s)")
      case True
      then show ?thesis
        using reconciled(10) by auto
    next
      case False
      then have "''paperless-hooks-'' @ name h \<in> set (map wf_name reg)"
        unfolding reg using h by auto
      then show ?thesis
        using reconciled(10) by auto
    qed
  qed
qed

lemma init_creation_names:
  assumes "init lib st s = (r, st', s')"
  shows "\<exists>P. map wf_name (creation_calls (new_log s s')) =
              filter P (map (\<lambda>h. ''paperless-hooks-'' @ name h) (all_handlers st))"
  using assms
proof (cases rule: init_run_elim)
  case (rejected e t h)
  then show ?thesis
    by (intro exI[of _ "\<lambda>_. False"]) (simp add: creation_calls_def)
next
  case no_handlers
  then show ?thesis
    by (simp add: creation_calls_def)
next
  case (listing_failed pages)
  have "creation_calls pages = []"
    using listing_failed(6) by (rule creation_calls_listing)
  then show ?thesis
    using listing_failed(4) by (intro exI[of _ "\<lambda>_. False"]) (simp add: new_log_def)
next
  case (reconciled pages posts reg)
  have "creation_calls (new_log s s') = creation_calls posts"
    using reconciled(4,6) by (rule creation_calls_new_log)
  then show ?thesis
    using reconciled(8) by auto
qed

text \<open>
  Claim C2.  Two runs of \<^verbatim>\<open>init\<close> in a row, the second on the registry and the server
  as the first left them, none of the requests of the first run having failed: the second
  run requests no creation and leaves the store as it is.  With handler names pairwise
  distinct, no workflow name is requested twice over the two runs.
\<close>

theorem init_twice:
  assumes "init lib st s = (r1, st1, s1)" and "\<forall>e\<in>set (new_log s s1). snd e"
    and "init lib st1 s1 = (r2, st2, s2)"
  shows "creation_calls (new_log s1 s2) = [] \<and> store s2 = store s1 \<and>
         (\<exists>ps. map fst (new_log s1 s2) = map GetWorkflows ps) \<and>
         (distinct (map name (all_handlers st)) \<longrightarrow>
            distinct (map wf_name (creation_calls (new_log s s1) @ creation_calls (new_log s1 s2))))"
proof -
  have second: "creation_calls (new_log s1 s2) = [] \<and> store s2 = store s1 \<and>
         (\<exists>ps. map fst (new_log s1 s2) = map GetWorkflows ps)"
  proof (cases "all_assignable lib st")
    case True
    have "\<forall>h\<in>set (all_handlers st). ''paperless-hooks-'' @ name h \<in> wf_name ` set (store s1)"
      using assms(1,2) True by (rule init_all_present)
    then have "\<forall>n\<in>set (map name (all_handlers st)). ''paperless-hooks-'' @ n \<in> wf_name ` set (store s1)"
      by simp
    then have "\<forall>n\<in>set (map name (all_handlers st1)). ''paperless-hooks-'' @ n \<in> wf_name ` set (store s1)"
      by (simp only: init_all_handlers(1)[OF assms(1)])
    then have "\<forall>h\<in>set (all_handlers st1). ''paperless-hooks-'' @ name h \<in> wf_name ` set (store s1)"
      by simp
    then show ?thesis
      using init_no_creation[OF assms(3)] init_listing_only[OF assms(3)] by simp
  next
    case False
    then have "\<not> all_assignable lib st1"
      using init_accepted_again[OF assms(1)] by blast
    with assms(3) have "s2 = s1"
      by (cases rule: init_run_elim) simp_all
    then show ?thesis
      by (simp add: creation_calls_def)
  qed
  have "distinct (map wf_name (creation_calls (new_log s s1) @ creation_calls (new_log s1 s2)))"
    if d: "distinct (map name (all_handlers st))"
  proof -
    from init_creation_names[OF assms(1)] obtain P where
      P: "map wf_name (creation_calls (new_log s s1)) =
              filter P (map (\<lambda>h. ''paperless-hooks-'' @ name h) (all_handlers st))"
      by blast
    have "map (\<lambda>h. ''paperless-hooks-'' @ name h) (all_handlers st) =
          map ((@) ''paperless-hooks-'') (map name (all_handlers st))"
      by simp
    moreover have "distinct (map ((@) ''paperless-hooks-'') (map name (all_handlers st)))"
      using d by (simp only: distinct_map) (auto intro: inj_onI)
    ultimately have "distinct (map (\<lambda>h. ''paperless-hooks-'' @ name h) (all_handlers st))"
      by (simp only:)
    then have "distinct (map wf_name (creation_calls (new_log s s1)))"
      unfolding P by (rule distinct_filter)
    then show ?thesis
      using second by simp
  qed
  then show ?thesis
    using second by blast
qed

theorem init_twice_witness:
  "map snd (new_log server0 (snd (snd first_run))) = [True, True, True] \<and>
   map wf_name (creation_calls (new_log server0 (snd (snd first_run)))) =
     [''paperless-hooks-on_added'', ''paperless-hooks-on_updated''] \<and>
   listing_calls (new_log (snd (snd first_run)) (snd (snd second_run))) = [1] \<and>
   creation_calls (new_log (snd (snd first_run)) (snd (snd second_run))) = [] \<and>
   store (snd (snd second_run)) = store (snd (snd first_run)) \<and>
   distinct (map wf_name
     (creation_calls (new_log server0 (snd (snd first_run))) @
      creation_calls (new_log (snd (snd first_run)) (snd (snd second_run)))))"
proof -
  have i1: "init no_such_field registry2 server0 = (fst first_run, fst (snd first_run), snd (snd first_run))"
    by (simp add: first_run_def)
  have i2: "init no_such_field (fst (snd first_run)) (snd (snd first_run)) =
      (fst second_run, fst (snd second_run), snd (snd second_run))"
    by (simp add: second_run_def)
  have o: "map snd (new_log server0 (snd (snd first_run))) = [True, True, True]"
    by code_simp
  have "set (map snd (new_log server0 (snd (snd first_run)))) = {True}"
    unfolding o by simp
  then have ok: "\<forall>e\<in>set (new_log server0 (snd (snd first_run))). snd e"
    by auto
  have c: "map wf_name (creation_calls (new_log server0 (snd (snd first_run)))) =
     [''paperless-hooks-on_added'', ''paperless-hooks-on_updated'']"
    by code_simp
  have l: "listing_calls (new_log (snd (snd first_run)) (snd (snd second_run))) = [1]"
    by code_simp
  have d: "distinct (map name (all_handlers registry2))"
    by (simp add: all_handlers_registry2 handler_for_sel)
  show ?thesis
    using init_twice [OF i1 ok i2] o c l d by blast
qed

text \<open>
  Claim C2 as stated covers every handler set.  With two handlers of the same name the
  first run alone requests the creation of one workflow name twice.
\<close>

theorem init_twins_create_twice:
  "map wf_name (creation_calls (new_log server0 (snd (snd (init no_such_field registry_twins server0))))) =
     [''paperless-hooks-on_doc'', ''paperless-hooks-on_doc''] \<and>
   map snd (new_log server0 (snd (snd (init no_such_field registry_twins server0)))) = [True, True, True]"
  by code_simp

section \<open>\<^verbatim>\<open>cleanup\<close>\<close>

lemma registry0_constructed:
  "PaperlessHooks_new ''http://paperless/'' ''token'' ''http://hooks/'' (Some []) 200 =
     Inr registry0"
  by (simp add: PaperlessHooks_new_def registry0_def rstrip_char_def)

lemma delete_workflow_instance:
  "store (snd (delete_workflow (ModelArg w) s)) = store s"
  "fst (delete_workflow (ModelArg w) s) = Inl PaperlessAPIError"
  by (simp_all add: delete_workflow_def)

lemma delete_all_store: "store (delete_all ws s) = store s"
proof (induction ws arbitrary: s)
  case Nil
  then show ?case by simp
next
  case (Cons w ws)
  obtain res s1 where d: "delete_workflow (ModelArg w) s = (res, s1)"
    by (cases "delete_workflow (ModelArg w) s") auto
  have "store s1 = store s"
    using delete_workflow_instance(1)[of w s] d by simp
  then show ?case
    using Cons[of s1] d by (cases res) simp_all
qed

lemma cleanup_store: "store (snd (cleanup st s)) = store s"
  by (simp add: cleanup_def delete_all_store)

text \<open>
  Claim C1 at a concrete run.  \<^verbatim>\<open>init\<close> creates the workflow of the one handler, which
  the server stores under the identifier 1; the ledger holds the workflow that
  \<^verbatim>\<open>create_workflow\<close> returned.  \<^verbatim>\<open>cleanup\<close> sends one DELETE, built from that
  ledger entry; it fails, the ledger is emptied and the workflow is still in the store.
  A DELETE built from the identifier would have removed it.
\<close>

theorem cleanup_leaves_created_workflow:
  "map wf_id (registered_workflows (fst (snd created_run))) = [Some 1] \<and>
   map wf_id (store (snd (snd created_run))) = [Some 1] \<and>
   registered_workflows (fst cleanup_run) = [] \<and>
   map snd (new_log (snd (snd created_run)) (snd cleanup_run)) = [False] \<and>
   map wf_id (store (snd cleanup_run)) = [Some 1] \<and>
   store (snd (delete_workflow (IdArg 1) (snd (snd created_run)))) = []"
  by code_simp

end
